(* ===== verification/Prelude.thy ===== *)
theory Prelude
  imports Complex_Main "HOL-Library.Word" "HOL-Library.Log_Nat" "HOL-Library.Multiset"
    "HOL-Library.Sublist" "HOL-Library.AList" "HOL-Library.Char_ord"
    "HOL-Library.List_Lexorder" "HOL-Library.Product_Lexorder"
begin

text \<open>
  The prelude of the development: the machine integer types of the C++ sources, the
  exceptions of the standard library the code can raise, the operations of
  \<open>std::string\<close>, \<open>std::to_string\<close> and \<open>std::unordered_map\<close> that the components
  call, and the generic lemmas on lists, options and association lists they share.

  Conventions. \<open>size_t\<close> positions that may be \<open>npos\<close> are \<open>nat option\<close>; a map is an
  association list with distinct keys, updated by \<open>AList.update\<close>; where the code
  iterates over an \<open>unordered_map\<close> the order is an argument that permutes the list.
\<close>

named_theorems wf_intros \<open>operations keep well-formedness invariants\<close>
named_theorems str_simps \<open>characteristic equations of the string operations\<close>

section \<open>Machine integers and exceptions\<close>

type_synonym u8 = "8 word"
type_synonym u16 = "16 word"
type_synonym u32 = "32 word"
type_synonym u64 = "64 word"

text \<open>Signed integers are words read through \<open>sint\<close>.\<close>

type_synonym i32 = "32 word"
type_synonym i64 = "64 word"

text \<open>
  The exceptions the modelled code can raise: \<open>std::out_of_range\<close> and
  \<open>std::invalid_argument\<close> of the standard library, and the type error of the JSON
  library's conversions.
\<close>

datatype exn = OutOfRange | InvalidArgument | JsonTypeError

type_synonym 'a res = "exn + 'a"

definition bind_res :: "'a res \<Rightarrow> ('a \<Rightarrow> 'b res) \<Rightarrow> 'b res" where
  "bind_res m f = (case m of Inl e \<Rightarrow> Inl e | Inr x \<Rightarrow> f x)"

lemma bind_res_simps [simp]:
  "bind_res (Inl e) f = Inl e" "bind_res (Inr x) f = f x"
  by (simp_all add: bind_res_def)

lemma bind_res_eq_Inr [simp]:
  "bind_res m f = Inr y \<longleftrightarrow> (\<exists>x. m = Inr x \<and> f x = Inr y)"
  by (cases m) auto

lemma bind_res_assoc: "bind_res (bind_res m f) g = bind_res m (\<lambda>x. bind_res (f x) g)"
  by (cases m) auto

section \<open>The operations of std::string\<close>

text \<open>\<open>s.find(c)\<close>: the first position of a character.\<close>

primrec find_char :: "char \<Rightarrow> string \<Rightarrow> nat option" where
  "find_char c [] = None"
| "find_char c (x # xs) = (if x = c then Some 0 else map_option Suc (find_char c xs))"

text \<open>\<open>s.rfind(c)\<close>: the last position of a character.\<close>

primrec rfind_char :: "char \<Rightarrow> string \<Rightarrow> nat option" where
  "rfind_char c [] = None"
| "rfind_char c (x # xs) =
     (case rfind_char c xs of
        Some i \<Rightarrow> Some (Suc i)
      | None \<Rightarrow> if x = c then Some 0 else None)"

text \<open>\<open>s.find(p)\<close>: the first position where the string \<open>p\<close> occurs.\<close>

primrec str_find :: "string \<Rightarrow> string \<Rightarrow> nat option" where
  "str_find p [] = (if p = [] then Some 0 else None)"
| "str_find p (x # xs) =
     (if prefix p (x # xs) then Some 0 else map_option Suc (str_find p xs))"

text \<open>\<open>s.rfind(p, 0) == 0\<close> and \<open>s.compare(0, p.size(), p) == 0\<close>.\<close>

definition starts_with :: "string \<Rightarrow> string \<Rightarrow> bool" where
  "starts_with p s \<longleftrightarrow> prefix p s"

text \<open>\<open>s.substr(pos)\<close> and \<open>s.substr(pos, n)\<close>; both throw when \<open>pos > s.size()\<close>.\<close>

definition substr_from :: "string \<Rightarrow> nat \<Rightarrow> string res" where
  "substr_from s pos = (if pos \<le> length s then Inr (drop pos s) else Inl OutOfRange)"

text \<open>\<open>s.find_first_not_of(" \t")\<close>.\<close>

primrec find_first_not_of :: "string \<Rightarrow> string \<Rightarrow> nat option" where
  "find_first_not_of cs [] = None"
| "find_first_not_of cs (x # xs) =
     (if x \<in> set cs then map_option Suc (find_first_not_of cs xs) else Some 0)"

lemma find_char_None [str_simps]: "find_char c s = None \<longleftrightarrow> c \<notin> set s"
  by (induction s) auto

lemma find_char_Some [str_simps]:
  "find_char c s = Some i \<longleftrightarrow> i < length s \<and> s ! i = c \<and> c \<notin> set (take i s)"
proof (induction s arbitrary: i)
  case Nil
  then show ?case by simp
next
  case (Cons x xs)
  then show ?case by (cases i) auto
qed

lemma find_char_append: "c \<notin> set xs \<Longrightarrow> find_char c (xs @ c # ys) = Some (length xs)"
  by (simp add: nth_append str_simps)

lemma rfind_char_None [str_simps]: "rfind_char c s = None \<longleftrightarrow> c \<notin> set s"
  by (induction s) (auto split: option.splits)

lemma rfind_char_Some [str_simps]:
  "rfind_char c s = Some i \<longleftrightarrow> i < length s \<and> s ! i = c \<and> c \<notin> set (drop (Suc i) s)"
proof (induction s arbitrary: i)
  case Nil
  then show ?case by simp
next
  case (Cons x xs)
  show ?case
  proof (cases "rfind_char c xs")
    case None
    then have nin: "c \<notin> set xs" by (simp add: rfind_char_None)
    then have "c \<notin> set (drop j xs)" and "j < length xs \<Longrightarrow> xs ! j \<noteq> c" for j
      by (auto dest: in_set_dropD nth_mem)
    with None nin show ?thesis by (cases i) auto
  next
    case (Some k)
    then have "c \<in> set xs" by (metis rfind_char_None option.distinct(1))
    with Some Cons.IH [of "i - 1"] show ?thesis by (cases i) auto
  qed
qed

lemma rfind_char_append: "c \<notin> set ys \<Longrightarrow> rfind_char c (xs @ c # ys) = Some (length xs)"
  by (simp add: nth_append str_simps)

lemma str_find_Some_0 [simp]: "str_find p s = Some 0 \<longleftrightarrow> prefix p s"
  by (cases s) auto

lemma str_find_None: "str_find p s = None \<longleftrightarrow> \<not> sublist p s"
  by (induction s) (auto simp: sublist_Cons_right)

lemma str_find_Some:
  "str_find p s = Some i \<Longrightarrow> \<exists>a b. s = a @ p @ b \<and> length a = i"
proof (induction s arbitrary: i)
  case Nil
  then show ?case by (auto split: if_splits)
next
  case (Cons x xs)
  show ?case
  proof (cases "prefix p (x # xs)")
    case True
    with Cons.prems show ?thesis by (auto simp: prefix_def)
  next
    case False
    with Cons.prems obtain j where j: "str_find p xs = Some j" "i = Suc j" by auto
    from Cons.IH [OF j(1)] obtain a b where "xs = a @ p @ b" "length a = j" by blast
    with j show ?thesis by (intro exI [of _ "x # a"] exI [of _ b]) simp
  qed
qed

lemma find_first_not_of_None [str_simps]: "find_first_not_of cs s = None \<longleftrightarrow> set s \<subseteq> set cs"
  by (induction s) auto

lemma find_first_not_of_dropWhile:
  "find_first_not_of cs s = Some k \<Longrightarrow> drop k s = dropWhile (\<lambda>c. c \<in> set cs) s"
  by (induction s arbitrary: k) (auto split: if_splits)

section \<open>Numbers as text\<close>

text \<open>Decimal digits of a number, most significant first: \<open>std::to_string\<close>.\<close>

definition digit_char :: "int \<Rightarrow> char" where
  "digit_char d = char_of (48 + d)"

definition is_digit :: "char \<Rightarrow> bool" where
  "is_digit c \<longleftrightarrow> 48 \<le> (of_char c :: int) \<and> (of_char c :: int) \<le> 57"

definition digit_val :: "char \<Rightarrow> int" where
  "digit_val c = of_char c - 48"

function show_dec :: "int \<Rightarrow> string" where
  "show_dec n = (if n < 10 then [digit_char n] else show_dec (n div 10) @ [digit_char (n mod 10)])"
  by pat_completeness auto
termination
  by (relation "measure nat") (auto simp: int_div_less_self)

declare show_dec.simps [simp del]

definition show_nat :: "nat \<Rightarrow> string" where
  "show_nat n = show_dec (int n)"

definition show_int :: "int \<Rightarrow> string" where
  "show_int i = (if i < 0 then CHR ''-'' # show_dec (- i) else show_dec i)"

text \<open>The value of a digit string, read left to right.\<close>

definition digits_val :: "string \<Rightarrow> int" where
  "digits_val s = foldl (\<lambda>n c. 10 * n + digit_val c) 0 s"

lemma digit_char_props [simp]:
  assumes "0 \<le> d" and "d < 10"
  shows "is_digit (digit_char d)" and "digit_val (digit_char d) = d"
  using assms by (simp_all add: is_digit_def digit_char_def digit_val_def)

lemma show_dec_nonempty [simp]: "show_dec n \<noteq> []"
  by (subst show_dec.simps) simp

lemma show_dec_digits: "0 \<le> n \<Longrightarrow> list_all is_digit (show_dec n)"
proof (induction n rule: show_dec.induct)
  case (1 n)
  then show ?case by (subst show_dec.simps) auto
qed

lemma digits_val_show_dec [simp]: "0 \<le> n \<Longrightarrow> digits_val (show_dec n) = n"
proof (induction n rule: show_dec.induct)
  case (1 n)
  then show ?case
    by (subst show_dec.simps) (auto simp: digits_val_def)
qed

lemma show_nat_nonempty [simp]: "show_nat n \<noteq> []"
  by (simp add: show_nat_def)

lemma show_nat_digits: "list_all is_digit (show_nat n)"
  by (simp add: show_nat_def show_dec_digits)

lemma digits_val_show_nat [simp]: "digits_val (show_nat n) = int n"
  by (simp add: show_nat_def)

lemma show_nat_inject [simp]: "show_nat m = show_nat n \<longleftrightarrow> m = n"
  by (metis digits_val_show_nat of_nat_eq_iff)

lemma digits_val_nonneg: "list_all is_digit s \<Longrightarrow> 0 \<le> digits_val s"
proof -
  have "0 \<le> n \<Longrightarrow> list_all is_digit s \<Longrightarrow> 0 \<le> foldl (\<lambda>n c. 10 * n + digit_val c) n s" for n :: int
    by (induction s arbitrary: n) (auto simp: is_digit_def digit_val_def)
  then show "list_all is_digit s \<Longrightarrow> 0 \<le> digits_val s" by (simp add: digits_val_def)
qed

section \<open>Association lists and bounded logs\<close>

lemma distinct_map_of_Some [simp]:
  "distinct (map fst m) \<Longrightarrow> map_of m k = Some v \<longleftrightarrow> (k, v) \<in> set m"
  by (rule map_of_eq_Some_iff)

lemma update_new: "k \<notin> fst ` set m \<Longrightarrow> AList.update k v m = m @ [(k, v)]"
  by (induction m) auto

text \<open>The last \<open>n\<close> elements: what remains after erasing from the front.\<close>

definition last_n :: "nat \<Rightarrow> 'a list \<Rightarrow> 'a list" where
  "last_n n xs = drop (length xs - n) xs"

lemma length_last_n [simp]: "length (last_n n xs) = min n (length xs)"
  by (simp add: last_n_def)

lemma last_n_id [simp]: "length xs \<le> n \<Longrightarrow> last_n n xs = xs"
  by (simp add: last_n_def)

lemma last_n_append_absorb: "last_n n (last_n n xs @ ys) = last_n n (xs @ ys)"
proof (cases "length xs \<le> n")
  case True
  then show ?thesis by simp
next
  case False
  then show ?thesis
    by (simp add: last_n_def add.commute [of "length ys"])
qed

lemma suffix_last_n: "suffix (last_n n xs) xs"
  by (simp add: last_n_def suffix_drop)

text \<open>A function that only permutes: the unspecified iteration order of a hash map.\<close>

definition iteration_order :: "('a list \<Rightarrow> 'a list) \<Rightarrow> bool" where
  "iteration_order ord \<longleftrightarrow> (\<forall>xs. mset (ord xs) = mset xs)"

lemma iteration_order_set [simp]: "iteration_order ord \<Longrightarrow> set (ord xs) = set xs"
  by (metis iteration_order_def set_mset_mset)

lemma iteration_order_length [simp]: "iteration_order ord \<Longrightarrow> length (ord xs) = length xs"
  by (metis iteration_order_def size_mset)

lemma iteration_order_id [simp]: "iteration_order (\<lambda>xs. xs)"
  by (simp add: iteration_order_def)

lemma iteration_order_rev [simp]: "iteration_order rev"
  by (simp add: iteration_order_def)

lemma str_find_first:
  assumes "c \<notin> set a"
  shows "str_find (c # p) (a @ (c # p) @ r) = Some (length a)"
  using assms by (induction a) auto

text \<open>Joining strings with a separator.\<close>

fun join_with :: "'a list \<Rightarrow> 'a list list \<Rightarrow> 'a list" where
  "join_with sep [] = []"
| "join_with sep [x] = x"
| "join_with sep (x # y # xs) = x @ sep @ join_with sep (y # xs)"

lemma join_with_snoc:
  "join_with sep (xs @ [y]) = (if xs = [] then y else join_with sep xs @ sep @ y)"
  by (induction sep xs rule: join_with.induct) auto

text \<open>The elements a loop collects do not depend on the order of iteration.\<close>

lemma mset_concat_map: "mset (concat (map f xs)) = sum_mset (image_mset (\<lambda>x. mset (f x)) (mset xs))"
  by (induction xs) simp_all

lemma mset_concat_map_cong: "mset xs = mset ys \<Longrightarrow> mset (concat (map f xs)) = mset (concat (map f ys))"
  by (simp only: mset_concat_map)

end
