(* ===== verification/Double.thy ===== *)
theory Double
  imports Prelude
begin

text \<open>
  The C++ type \<open>double\<close>: IEEE 754 binary64 with rounding to nearest, ties to even. A finite
  value is the rational number it denotes, so every operation is executable: it computes the
  exact rational result and rounds it to 53 significant bits, with the subnormal range at the
  bottom and infinities at the top. Comparisons with NaN are false. The two zeros are
  identified; the only operations that tell them apart (division by a zero, printing a zero)
  are used by the program with \<open>+0\<close> alone.

  The lemmas show that rounding is monotone, leaves representable values alone and has an
  error of at most half a unit in the last place; the components' bounds rest on them.
\<close>

section \<open>Integer logarithms of rationals\<close>

text \<open>The number of digits of a positive integer in base \<open>b\<close>.\<close>

function num_digits :: "int \<Rightarrow> int \<Rightarrow> nat" where
  "num_digits b n = (if b < 2 \<or> n \<le> 0 then 0 else Suc (num_digits b (n div b)))"
  by pat_completeness auto
termination
  by (relation "measure (\<lambda>(b, n). nat n)") (auto simp: int_div_less_self)

declare num_digits.simps [simp del]

text \<open>\<open>ilog b q\<close> is the integer part of the logarithm of a positive rational.\<close>

definition ilog :: "int \<Rightarrow> rat \<Rightarrow> int" where
  "ilog b q =
     (let (n, d) = quotient_of q;
          k = int (num_digits b n) - int (num_digits b d)
      in if of_int b powi k \<le> q then k else k - 1)"

text \<open>Rounding to the nearest integer, ties to even.\<close>

definition round_even :: "rat \<Rightarrow> int" where
  "round_even x =
     (let f = \<lfloor>x\<rfloor>; r = x - of_int f
      in if r < 1/2 then f else if 1/2 < r then f + 1 else if even f then f else f + 1)"

section \<open>Rounding to binary64\<close>

text \<open>The exponent of the last place of the significand; \<open>-1074\<close> is the subnormal limit.\<close>

definition ulp_exp :: "rat \<Rightarrow> int" where
  "ulp_exp x = max (ilog 2 \<bar>x\<bar> - 52) (-1074)"

definition round_rat :: "rat \<Rightarrow> rat" where
  "round_rat x =
     (if x = 0 then 0
      else let u = 2 powi ulp_exp x in of_int (round_even (x / u)) * u)"

datatype double = Fin rat | PInf | NInf | NaN

text \<open>Overflow: the rounded magnitude reaches \<open>2 ^ 1024\<close>.\<close>

definition max_exceeded :: "rat \<Rightarrow> bool" where
  "max_exceeded r \<longleftrightarrow> r \<noteq> 0 \<and> 1024 \<le> ilog 2 \<bar>r\<bar>"

definition rnd :: "rat \<Rightarrow> double" where
  "rnd x =
     (let r = round_rat x
      in if max_exceeded r then (if 0 < r then PInf else NInf) else Fin r)"

section \<open>Arithmetic and comparisons\<close>

fun dneg :: "double \<Rightarrow> double" where
  "dneg (Fin a) = Fin (- a)"
| "dneg PInf = NInf"
| "dneg NInf = PInf"
| "dneg NaN = NaN"

fun dadd :: "double \<Rightarrow> double \<Rightarrow> double" where
  "dadd (Fin a) (Fin b) = rnd (a + b)"
| "dadd NaN _ = NaN"
| "dadd _ NaN = NaN"
| "dadd PInf NInf = NaN"
| "dadd NInf PInf = NaN"
| "dadd PInf _ = PInf"
| "dadd NInf _ = NInf"
| "dadd _ PInf = PInf"
| "dadd _ NInf = NInf"

definition dsub :: "double \<Rightarrow> double \<Rightarrow> double" where
  "dsub a b = dadd a (dneg b)"

definition inf_times :: "rat \<Rightarrow> double" where
  "inf_times s = (if 0 < s then PInf else if s < 0 then NInf else NaN)"

fun dmul :: "double \<Rightarrow> double \<Rightarrow> double" where
  "dmul (Fin a) (Fin b) = rnd (a * b)"
| "dmul NaN _ = NaN"
| "dmul _ NaN = NaN"
| "dmul PInf (Fin b) = inf_times b"
| "dmul NInf (Fin b) = inf_times (- b)"
| "dmul (Fin a) PInf = inf_times a"
| "dmul (Fin a) NInf = inf_times (- a)"
| "dmul PInf PInf = PInf"
| "dmul NInf NInf = PInf"
| "dmul PInf NInf = NInf"
| "dmul NInf PInf = NInf"

fun ddiv :: "double \<Rightarrow> double \<Rightarrow> double" where
  "ddiv (Fin a) (Fin b) = (if b = 0 then inf_times a else rnd (a / b))"
| "ddiv NaN _ = NaN"
| "ddiv _ NaN = NaN"
| "ddiv (Fin a) _ = Fin 0"
| "ddiv PInf (Fin b) = (if b < 0 then NInf else PInf)"
| "ddiv NInf (Fin b) = (if b < 0 then PInf else NInf)"
| "ddiv PInf _ = NaN"
| "ddiv NInf _ = NaN"

fun dlt :: "double \<Rightarrow> double \<Rightarrow> bool" where
  "dlt (Fin a) (Fin b) = (a < b)"
| "dlt (Fin a) PInf = True"
| "dlt NInf (Fin b) = True"
| "dlt NInf PInf = True"
| "dlt _ _ = False"

definition dge :: "double \<Rightarrow> double \<Rightarrow> bool" where
  "dge a b \<longleftrightarrow> a \<noteq> NaN \<and> b \<noteq> NaN \<and> \<not> dlt a b"

text \<open>\<open>std::max(a, b)\<close> returns \<open>a\<close> unless \<open>a < b\<close>.\<close>

definition dmax :: "double \<Rightarrow> double \<Rightarrow> double" where
  "dmax a b = (if dlt a b then b else a)"

text \<open>Conversions from the integer types.\<close>

definition of_u64 :: "u64 \<Rightarrow> double" where
  "of_u64 w = rnd (of_int (uint w))"

definition of_i64 :: "i64 \<Rightarrow> double" where
  "of_i64 w = rnd (of_int (sint w))"

definition of_i32 :: "i32 \<Rightarrow> double" where
  "of_i32 w = rnd (of_int (sint w))"

section \<open>Properties of the integer logarithm and of rounding to integers\<close>

lemma powi_pos [simp]: "0 < (2::rat) powi k"
  by (simp add: zero_less_power_int)

lemma num_digits_bounds:
  "2 \<le> b \<Longrightarrow> 0 < n \<Longrightarrow> b ^ (num_digits b n - 1) \<le> n \<and> n < b ^ num_digits b n \<and> 0 < num_digits b n"
proof (induction b n rule: num_digits.induct)
  case (1 b n)
  show ?case
  proof (cases "n < b")
    case True
    with "1.prems" have "num_digits b n = 1" by (simp add: num_digits.simps [of b n] num_digits.simps [of b 0])
    with "1.prems" True show ?thesis by simp
  next
    case False
    let ?m = "n div b" and ?d = "num_digits b (n div b)"
    have "0 < ?m" using False "1.prems" by (simp add: pos_imp_zdiv_pos_iff)
    with "1.IH" "1.prems" have IH: "b ^ (?d - 1) \<le> ?m" "?m < b ^ ?d" "0 < ?d" by auto
    have d: "num_digits b n = Suc ?d" using "1.prems" by (simp add: num_digits.simps [of b n])
    have n: "n = b * ?m + n mod b" by simp
    have "b ^ ?d = b * b ^ (?d - 1)" using IH(3) by (metis Suc_diff_1 power_Suc)
    also have "\<dots> \<le> b * ?m" using IH(1) "1.prems" by simp
    also have "\<dots> \<le> n" using n "1.prems" by (metis le_add_same_cancel1 pos_mod_sign zero_less_numeral order_less_le_trans)
    finally have lo: "b ^ ?d \<le> n" .
    have "n mod b < b" using "1.prems" by simp
    with n have "n < b * (?m + 1)" by (simp only: distrib_left mult_1_right)
    also have "\<dots> \<le> b * b ^ ?d" using IH(2) "1.prems" by (intro mult_left_mono) auto
    finally show ?thesis using lo d by simp
  qed
qed

lemma ilog_bounds:
  assumes q: "0 < q" and b: "2 \<le> b"
  shows "of_int b powi ilog b q \<le> q" and "q < of_int b powi (ilog b q + 1)"
proof -
  obtain n d where nd: "quotient_of q = (n, d)" by fastforce
  let ?B = "rat_of_int b"
  have d: "0 < d" and q_eq: "q = of_int n / of_int d"
    using nd quotient_of_denom_pos quotient_of_div by auto
  with q have n: "0 < n" by (simp add: zero_less_divide_iff)
  define i j where "i = num_digits b n" and "j = num_digits b d"
  have scale: "?B powi (int (num_digits b n) - 1) \<le> of_int n \<and> of_int n < ?B powi int (num_digits b n)"
    if "0 < n" for n
  proof -
    note bd = num_digits_bounds [OF b that]
    then have "rat_of_int (b ^ (num_digits b n - 1)) \<le> of_int n"
      and "rat_of_int n < of_int (b ^ num_digits b n)"
      by (simp_all only: of_int_le_iff of_int_less_iff)
    with bd show ?thesis by (simp add: power_int_def nat_diff_distrib)
  qed
  note N = scale [OF n, folded i_def] and D = scale [OF d, folded j_def]
  have Bp: "0 < ?B powi k" "?B \<noteq> 0" for k
    using b by (simp_all add: zero_less_power_int)
  let ?k = "int i - int j"
  have "?B powi (?k - 1) = ?B powi (int i - 1) / ?B powi int j"
    by (subst power_int_diff [symmetric]) (use Bp in \<open>simp_all add: algebra_simps\<close>)
  also have "\<dots> \<le> q" unfolding q_eq
    using N D d n Bp by (intro frac_le) (auto simp: less_imp_le)
  finally have lo: "?B powi (?k - 1) \<le> q" .
  have "q < ?B powi int i / ?B powi (int j - 1)" unfolding q_eq
    using N D d n Bp by (intro frac_less) auto
  also have "\<dots> = ?B powi (?k + 1)"
    by (subst power_int_diff [symmetric]) (use Bp in \<open>simp_all add: algebra_simps\<close>)
  finally have hi: "q < ?B powi (?k + 1)" .
  have "ilog b q = (if ?B powi ?k \<le> q then ?k else ?k - 1)"
    by (simp add: ilog_def nd i_def j_def)
  with lo hi show "?B powi ilog b q \<le> q" and "q < ?B powi (ilog b q + 1)"
    by (auto simp: not_le)
qed

lemma ilog_less_iff:
  assumes "0 < q" and "2 \<le> b"
  shows "ilog b q < k \<longleftrightarrow> q < of_int b powi k"
proof
  assume "ilog b q < k"
  then have "rat_of_int b powi (ilog b q + 1) \<le> of_int b powi k"
    using assms by (intro power_int_increasing) auto
  with ilog_bounds(2) [OF assms] show "q < of_int b powi k" by simp
next
  assume "q < of_int b powi k"
  with ilog_bounds(1) [OF assms] have lt: "rat_of_int b powi ilog b q < of_int b powi k" by simp
  show "ilog b q < k"
  proof (rule ccontr)
    assume "\<not> ilog b q < k"
    then have "rat_of_int b powi k \<le> of_int b powi ilog b q"
      using assms by (intro power_int_increasing) auto
    with lt show False by simp
  qed
qed

lemma max_exceeded_iff: "max_exceeded r \<longleftrightarrow> 2 ^ 1024 \<le> \<bar>r\<bar>"
proof (cases "r = 0")
  case True
  then show ?thesis by (simp add: max_exceeded_def not_le)
next
  case False
  then show ?thesis
    using ilog_less_iff [of "\<bar>r\<bar>" 2 1024] by (simp add: max_exceeded_def not_less [symmetric])
qed

lemma ilog_mono:
  assumes "0 < x" and "x \<le> y" and "2 \<le> b"
  shows "ilog b x \<le> ilog b y"
proof (rule ccontr)
  assume "\<not> ilog b x \<le> ilog b y"
  then have "y < of_int b powi ilog b x"
    using assms ilog_less_iff [of y b "ilog b x"] by simp
  with ilog_bounds(1) [of x b] assms show False by simp
qed

lemma round_even_floor: "\<lfloor>x\<rfloor> \<le> round_even x" "round_even x \<le> \<lfloor>x\<rfloor> + 1"
  by (simp_all add: round_even_def Let_def)

lemma round_even_ge: "of_int n \<le> x \<Longrightarrow> n \<le> round_even x"
  using round_even_floor(1) [of x] by (meson le_floor_iff order_trans)

lemma round_even_of_int [simp]: "round_even (of_int n) = n"
  by (simp add: round_even_def)

lemma round_even_le:
  assumes "x \<le> of_int n"
  shows "round_even x \<le> n"
proof (cases "\<lfloor>x\<rfloor> < n")
  case True
  with round_even_floor(2) [of x] show ?thesis by simp
next
  case False
  with assms have "x = of_int n" by (simp add: not_less le_floor_iff)
  then show ?thesis by simp
qed

lemma round_even_mono:
  assumes "x \<le> y"
  shows "round_even x \<le> round_even y"
proof (cases "\<lfloor>x\<rfloor> < \<lfloor>y\<rfloor>")
  case True
  with round_even_floor(2) [of x] round_even_floor(1) [of y] show ?thesis by simp
next
  case False
  with assms have "\<lfloor>x\<rfloor> = \<lfloor>y\<rfloor>" by (simp add: floor_mono antisym)
  with assms show ?thesis by (auto simp: round_even_def Let_def)
qed

lemma round_even_minus: "round_even (- x) = - round_even x"
proof (cases "x \<in> \<int>")
  case True
  then show ?thesis by (metis Ints_cases of_int_minus round_even_of_int)
next
  case False
  then have "\<lfloor>- x\<rfloor> = - \<lfloor>x\<rfloor> - 1"
    by (metis add.inverse_inverse ceiling_altdef ceiling_def Ints_of_int diff_minus_eq_add
        minus_add_distrib uminus_add_conv_diff)
  then show ?thesis by (auto simp: round_even_def Let_def)
qed

lemma round_even_error: "\<bar>of_int (round_even x) - x\<bar> \<le> 1/2"
  using floor_correct [of x] by (auto simp: round_even_def Let_def)

section \<open>Properties of rounding to binary64\<close>

lemma round_rat_0 [simp]: "round_rat 0 = 0"
  by (simp add: round_rat_def)

lemma round_rat_minus [simp]: "round_rat (- x) = - round_rat x"
  by (simp add: round_rat_def ulp_exp_def Let_def round_even_minus)

lemma round_rat_ge_grid:
  assumes "of_int n * 2 powi ulp_exp x \<le> x"
  shows "of_int n * 2 powi ulp_exp x \<le> round_rat x"
proof (cases "x = 0")
  case False
  from assms have "of_int n \<le> x / 2 powi ulp_exp x" by (simp add: pos_le_divide_eq)
  then have "n \<le> round_even (x / 2 powi ulp_exp x)" by (rule round_even_ge)
  with False show ?thesis by (simp add: round_rat_def Let_def)
qed (use assms in simp)

lemma round_rat_le_grid:
  assumes "x \<le> of_int n * 2 powi ulp_exp x"
  shows "round_rat x \<le> of_int n * 2 powi ulp_exp x"
proof (cases "x = 0")
  case False
  from assms have "x / 2 powi ulp_exp x \<le> of_int n" by (simp add: pos_divide_le_eq)
  then have "round_even (x / 2 powi ulp_exp x) \<le> n" by (rule round_even_le)
  with False show ?thesis by (simp add: round_rat_def Let_def)
qed (use assms in simp)

lemma round_rat_nonneg: "0 \<le> x \<Longrightarrow> 0 \<le> round_rat x"
  using round_rat_ge_grid [of 0 x] by simp

lemma powi_on_grid:
  assumes "e \<le> k"
  shows "(2::rat) powi k = of_int (2 ^ nat (k - e)) * 2 powi e"
  using assms by (simp add: power_int_add [symmetric] flip: power_int_of_nat)

lemma round_rat_mono_pos:
  assumes "0 < x" and "x \<le> y"
  shows "round_rat x \<le> round_rat y"
proof -
  have y: "0 < y" using assms by simp
  have le: "ulp_exp x \<le> ulp_exp y"
    using ilog_mono [of x y 2] assms y by (simp add: ulp_exp_def)
  show ?thesis
  proof (cases "ulp_exp x = ulp_exp y")
    case True
    have "round_even (x / 2 powi ulp_exp y) \<le> round_even (y / 2 powi ulp_exp y)"
      using assms by (intro round_even_mono divide_right_mono) (auto simp: less_imp_le)
    with True assms y show ?thesis by (simp add: round_rat_def Let_def)
  next
    case False
    let ?B = "(2::rat) powi ilog 2 y"
    from False le have lt: "ulp_exp x < ulp_exp y" by simp
    then have ey: "ulp_exp y = ilog 2 y - 52" and ex: "ilog 2 x < ilog 2 y"
      using assms y by (auto simp: ulp_exp_def max_def split: if_splits)
    have "?B \<le> y" using ilog_bounds(1) [of y 2] y by simp
    then have "?B \<le> round_rat y"
      using powi_on_grid [of "ulp_exp y" "ilog 2 y"] round_rat_ge_grid [of "2 ^ nat (ilog 2 y - ulp_exp y)" y]
        ey by simp
    moreover have "x \<le> ?B" using ilog_less_iff [of x 2 "ilog 2 y"] ex assms by simp
    then have "round_rat x \<le> ?B"
      using powi_on_grid [of "ulp_exp x" "ilog 2 y"] round_rat_le_grid [of x "2 ^ nat (ilog 2 y - ulp_exp x)"]
        ey lt by simp
    ultimately show ?thesis by simp
  qed
qed

lemma round_rat_mono: "x \<le> y \<Longrightarrow> round_rat x \<le> round_rat y"
proof -
  assume le: "x \<le> y"
  consider "0 < x" | "x \<le> 0" "0 \<le> y" | "y < 0" using le by linarith
  then show "round_rat x \<le> round_rat y"
  proof cases
    case 1
    with le show ?thesis by (intro round_rat_mono_pos)
  next
    case 2
    then show ?thesis using round_rat_nonneg [of y] round_rat_nonneg [of "- x"] by simp
  next
    case 3
    with le round_rat_mono_pos [of "- y" "- x"] show ?thesis by simp
  qed
qed

text \<open>
  A rational is representable when it has at most 53 significant bits and does not go below
  the subnormal grid. Rounding always ends in such a value and keeps one unchanged.
\<close>

definition representable :: "rat \<Rightarrow> bool" where
  "representable r \<longleftrightarrow> (\<exists>m e. r = of_int m * 2 powi e \<and> \<bar>m\<bar> \<le> 2 ^ 53 \<and> -1074 \<le> e)"

lemma representableI:
  "r = of_int m * 2 powi e \<Longrightarrow> \<bar>m\<bar> \<le> 2 ^ 53 \<Longrightarrow> -1074 \<le> e \<Longrightarrow> representable r"
  unfolding representable_def by blast

lemma representable_of_int: "\<bar>n\<bar> \<le> 2 ^ 53 \<Longrightarrow> representable (of_int n)"
  by (rule representableI [of _ n 0]) simp_all

lemma representable_minus: "representable r \<Longrightarrow> representable (- r)"
proof -
  assume "representable r"
  then obtain m e where "r = of_int m * 2 powi e" "\<bar>m\<bar> \<le> 2 ^ 53" "-1074 \<le> e"
    unfolding representable_def by blast
  then show "representable (- r)" by (intro representableI [of _ "- m" e]) simp_all
qed

lemma scaled_below:
  assumes "x \<noteq> 0"
  shows "\<bar>x / 2 powi ulp_exp x\<bar> < 2 ^ 53"
proof -
  have "\<bar>x\<bar> < 2 powi (ilog 2 \<bar>x\<bar> + 1)" using ilog_bounds(2) [of "\<bar>x\<bar>" 2] assms by simp
  also have "\<dots> \<le> 2 powi (53 + ulp_exp x)" by (intro power_int_increasing) (auto simp: ulp_exp_def)
  also have "\<dots> = 2 ^ 53 * 2 powi ulp_exp x"
    by (subst power_int_add) simp_all
  finally show ?thesis by (simp add: abs_divide divide_less_eq)
qed

lemma representable_round_rat: "representable (round_rat x)"
proof (cases "x = 0")
  case True
  then show ?thesis using representable_of_int [of 0] by simp
next
  case False
  define z where "z = x / 2 powi ulp_exp x"
  have "\<bar>z\<bar> < of_int (2 ^ 53)" using scaled_below [OF False] by (simp add: z_def)
  then have "z \<le> of_int (2 ^ 53)" and "of_int (- (2 ^ 53)) \<le> z" by simp_all
  then have "round_even z \<le> 2 ^ 53" and "- (2 ^ 53) \<le> round_even z"
    by (blast intro: round_even_le round_even_ge)+
  then have "\<bar>round_even (x / 2 powi ulp_exp x)\<bar> \<le> 2 ^ 53" by (simp add: z_def)
  then show ?thesis using False
    by (intro representableI [of _ "round_even (x / 2 powi ulp_exp x)" "ulp_exp x"])
       (simp_all add: round_rat_def Let_def ulp_exp_def)
qed

lemma representable_on_grid:
  assumes "representable r" and "r \<noteq> 0"
  obtains n where "r = of_int n * 2 powi ulp_exp r"
proof -
  from assms(1) obtain m e where r: "r = of_int m * 2 powi e" and m: "\<bar>m\<bar> \<le> 2 ^ 53" and e: "-1074 \<le> e"
    unfolding representable_def by blast
  show thesis
  proof (cases "ulp_exp r \<le> e")
    case True
    have "rat_of_int m * 2 powi e = of_int (m * 2 ^ nat (e - ulp_exp r)) * 2 powi ulp_exp r"
      by (subst powi_on_grid [OF True]) simp
    with r have "r = of_int (m * 2 ^ nat (e - ulp_exp r)) * 2 powi ulp_exp r" by simp
    then show thesis by (rule that)
  next
    case False
    let ?k = "ilog 2 \<bar>r\<bar>"
    from False e have u: "ulp_exp r = ?k - 52" and lt: "e < ?k - 52"
      by (auto simp: ulp_exp_def max_def split: if_splits)
    have "(2::rat) powi ?k \<le> \<bar>r\<bar>" using ilog_bounds(1) [of "\<bar>r\<bar>" 2] assms by simp
    also have "\<bar>r\<bar> = of_int \<bar>m\<bar> * 2 powi e" using r by (simp add: abs_mult)
    finally have k: "(2::rat) powi ?k \<le> of_int \<bar>m\<bar> * 2 powi e" .
    have "(2::rat) powi (e + 53) \<le> 2 powi ?k" using lt by (intro power_int_increasing) auto
    also note k
    finally have "2 ^ 53 * (2::rat) powi e \<le> of_int \<bar>m\<bar> * 2 powi e"
      by (simp add: power_int_add mult.commute)
    then have "rat_of_int (2 ^ 53) \<le> of_int \<bar>m\<bar>" by simp
    with m have mabs: "\<bar>m\<bar> = 2 ^ 53" by (simp only: of_int_le_iff)
    have "(2::rat) powi ?k \<le> 2 powi (e + 53)" using k mabs
      by (simp add: power_int_add mult.commute)
    then have "?k \<le> e + 53" by (metis linorder_not_less one_less_numeral_iff power_int_strict_increasing semiring_norm(76))
    with u lt have "ulp_exp r = e + 1" by simp
    moreover have "r = of_int (sgn m * 2 ^ 52) * 2 powi (e + 1)"
      using r mabs mult_sgn_abs [of m] by (simp add: power_int_add)
    ultimately have "r = of_int (sgn m * 2 ^ 52) * 2 powi ulp_exp r" by simp
    then show thesis by (rule that)
  qed
qed

lemma round_rat_exact: "representable r \<Longrightarrow> round_rat r = r"
proof (cases "r = 0")
  case False
  assume "representable r"
  from this False obtain n where "r = of_int n * 2 powi ulp_exp r" by (rule representable_on_grid)
  then have "r \<le> round_rat r" and "round_rat r \<le> r"
    by (metis order_refl round_rat_ge_grid, metis order_refl round_rat_le_grid)
  then show ?thesis by simp
qed simp

lemma round_rat_idem [simp]: "round_rat (round_rat x) = round_rat x"
  by (rule round_rat_exact [OF representable_round_rat])

lemma round_rat_error: "\<bar>round_rat x - x\<bar> \<le> 2 powi ulp_exp x / 2"
proof (cases "x = 0")
  case False
  let ?u = "2 powi ulp_exp x :: rat"
  have "round_rat x - x = (of_int (round_even (x / ?u)) - x / ?u) * ?u"
    using False by (simp add: round_rat_def Let_def algebra_simps)
  then have "\<bar>round_rat x - x\<bar> = \<bar>of_int (round_even (x / ?u)) - x / ?u\<bar> * ?u"
    by (simp add: abs_mult)
  also have "\<dots> \<le> 1/2 * ?u" by (intro mult_right_mono round_even_error) (simp add: less_imp_le)
  finally show ?thesis by simp
qed simp

text \<open>Representable bounds survive rounding.\<close>

lemma round_rat_ge: "representable r \<Longrightarrow> r \<le> x \<Longrightarrow> r \<le> round_rat x"
  using round_rat_mono [of r x] by (simp add: round_rat_exact)

lemma round_rat_le: "representable r \<Longrightarrow> x \<le> r \<Longrightarrow> round_rat x \<le> r"
  using round_rat_mono [of x r] by (simp add: round_rat_exact)

text \<open>\<open>x - y\<close> is exact when the operands are within a factor of two of each other.\<close>

lemma sterbenz_le:
  assumes x: "representable x" and y: "representable y" and "0 < y" and "y \<le> x" and "x \<le> 2 * y"
  shows "representable (x - y)"
proof -
  have "0 < x" using assms by simp
  obtain n where n: "y = of_int n * 2 powi ulp_exp y"
    using representable_on_grid [OF y] \<open>0 < y\<close> by blast
  obtain m where m: "x = of_int m * 2 powi ulp_exp x"
    using representable_on_grid [OF x] \<open>0 < x\<close> by blast
  have le: "ulp_exp y \<le> ulp_exp x"
    using ilog_mono [of y x 2] assms \<open>0 < x\<close> by (simp add: ulp_exp_def)
  define k where "k = m * 2 ^ nat (ulp_exp x - ulp_exp y) - n"
  have "x = of_int (m * 2 ^ nat (ulp_exp x - ulp_exp y)) * 2 powi ulp_exp y"
    using m powi_on_grid [OF le] by (metis mult.assoc of_int_mult)
  then have diff: "x - y = of_int k * 2 powi ulp_exp y"
    using n by (simp add: k_def algebra_simps)
  then have k: "of_int k = (x - y) / 2 powi ulp_exp y" by simp
  have "of_int \<bar>k\<bar> \<le> y / 2 powi ulp_exp y"
    using assms by (simp add: k abs_divide divide_right_mono less_imp_le)
  also have "\<dots> < of_int (2 ^ 53)"
    using scaled_below [of y] \<open>0 < y\<close> by simp
  finally have "\<bar>k\<bar> \<le> 2 ^ 53" by (simp only: of_int_less_iff less_imp_le)
  with diff show ?thesis by (rule representableI) (simp add: ulp_exp_def)
qed

lemma sterbenz:
  assumes "representable x" and "representable y" and "0 < y" and "y / 2 \<le> x" and "x \<le> 2 * y"
  shows "representable (x - y)"
proof (cases "y \<le> x")
  case True
  with assms show ?thesis by (intro sterbenz_le)
next
  case False
  with assms have "representable (y - x)" by (intro sterbenz_le) auto
  from representable_minus [OF this] show ?thesis by simp
qed

section \<open>Well-formed doubles\<close>

text \<open>The doubles the machine has: what every operation returns.\<close>

fun is_double :: "double \<Rightarrow> bool" where
  "is_double (Fin r) \<longleftrightarrow> representable r \<and> \<not> max_exceeded r"
| "is_double _ \<longleftrightarrow> True"

declare is_double.simps(1) [simp del]

lemma is_double_rnd [wf_intros, simp]: "is_double (rnd x)"
  by (simp add: rnd_def Let_def representable_round_rat is_double.simps)

lemma rnd_exact: "representable r \<Longrightarrow> \<not> max_exceeded r \<Longrightarrow> rnd r = Fin r"
  by (simp add: rnd_def round_rat_exact)

lemma rnd_is_double: "is_double (Fin r) \<Longrightarrow> rnd r = Fin r"
  by (simp add: rnd_exact is_double.simps)

lemma big_below_max: "\<bar>r\<bar> \<le> 2 ^ 1000 \<Longrightarrow> \<not> max_exceeded r"
proof -
  assume "\<bar>r\<bar> \<le> 2 ^ 1000"
  moreover have "(2::rat) ^ 1000 < 2 ^ 1024" by (intro power_strict_increasing) simp_all
  ultimately show ?thesis by (simp add: max_exceeded_iff)
qed

lemma small_below_max:
  assumes "\<bar>n\<bar> \<le> (2::int) ^ 53" and "\<bar>r\<bar> \<le> \<bar>rat_of_int n\<bar>"
  shows "\<not> max_exceeded r"
proof (rule big_below_max)
  from assms(1) have "rat_of_int \<bar>n\<bar> \<le> of_int (2 ^ 53)" by (simp only: of_int_le_iff)
  with assms(2) have "\<bar>r\<bar> \<le> 2 ^ 53" by simp
  also have "\<dots> \<le> (2::rat) ^ 1000" by (intro power_increasing) simp_all
  finally show "\<bar>r\<bar> \<le> 2 ^ 1000" .
qed

lemma rnd_of_int: "\<bar>n\<bar> \<le> 2 ^ 53 \<Longrightarrow> rnd (of_int n) = Fin (of_int n)"
  using small_below_max [of n "of_int n"] by (intro rnd_exact representable_of_int) auto

lemma rnd_dyadic:
  assumes "\<bar>m\<bar> \<le> 2 ^ 53" and "k \<le> 1074"
  shows "rnd (of_int m / 2 ^ k) = Fin (of_int m / 2 ^ k)"
proof (rule rnd_exact)
  show "representable (of_int m / 2 ^ k)"
    by (rule representableI [of _ m "- int k"]) (use assms in \<open>simp_all add: power_int_minus field_simps\<close>)
  have "\<bar>rat_of_int m / 2 ^ k\<bar> \<le> \<bar>rat_of_int m\<bar> / 1"
    unfolding abs_divide by (intro divide_left_mono) simp_all
  then show "\<not> max_exceeded (of_int m / 2 ^ k)"
    using small_below_max [OF assms(1)] by simp
qed

lemma rnd_numeral [simp]: "(numeral n :: int) \<le> 2 ^ 53 \<Longrightarrow> rnd (numeral n) = Fin (numeral n)"
  using rnd_of_int [of "numeral n"] by simp

lemma rnd_0 [simp]: "rnd 0 = Fin 0"
  using rnd_of_int [of 0] by simp

lemma rnd_1 [simp]: "rnd 1 = Fin 1"
  using rnd_of_int [of 1] by simp

text \<open>The order of the extended reals on the doubles; NaN is related to nothing.\<close>

fun dle :: "double \<Rightarrow> double \<Rightarrow> bool" where
  "dle (Fin a) (Fin b) = (a \<le> b)"
| "dle (Fin a) PInf = True"
| "dle NInf (Fin b) = True"
| "dle NInf PInf = True"
| "dle PInf PInf = True"
| "dle NInf NInf = True"
| "dle _ _ = False"

lemma dle_trans: "dle a b \<Longrightarrow> dle b c \<Longrightarrow> dle a c"
  by (cases a; cases b; cases c) auto

lemma rnd_not_NaN [simp]: "rnd x \<noteq> NaN"
  by (simp add: rnd_def Let_def)

lemma rnd_mono: "x \<le> y \<Longrightarrow> dle (rnd x) (rnd y)"
  using round_rat_mono [of x y] by (auto simp: rnd_def Let_def max_exceeded_iff)

lemma rnd_ge: "is_double (Fin r) \<Longrightarrow> r \<le> x \<Longrightarrow> dle (Fin r) (rnd x)"
  using rnd_mono [of r x] by (simp only: rnd_is_double)

lemma rnd_le: "is_double (Fin r) \<Longrightarrow> x \<le> r \<Longrightarrow> dle (rnd x) (Fin r)"
  using rnd_mono [of x r] by (simp only: rnd_is_double)

lemma dle_between_Fin:
  assumes "dle (Fin a) d" and "dle d (Fin b)"
  obtains r where "d = Fin r" "a \<le> r" "r \<le> b"
  using assms by (cases d) auto

lemma is_double_of_int: "\<bar>n\<bar> \<le> 2 ^ 53 \<Longrightarrow> is_double (Fin (of_int n))"
  using rnd_of_int [of n] is_double_rnd by metis

lemma is_double_numeral [simp]: "(numeral n :: int) \<le> 2 ^ 53 \<Longrightarrow> is_double (Fin (numeral n))"
  using is_double_of_int [of "numeral n"] by simp

lemma is_double_0 [simp]: "is_double (Fin 0)"
  using is_double_of_int [of 0] by simp

lemma dadd_is_double [wf_intros, simp]: "is_double (dadd a b)"
  by (cases a; cases b) simp_all

lemma dsub_is_double [wf_intros, simp]: "is_double (dsub a b)"
  by (simp add: dsub_def)

lemma dmul_is_double [wf_intros, simp]: "is_double (dmul a b)"
  by (cases a; cases b) (simp_all add: inf_times_def)

lemma ddiv_is_double [wf_intros, simp]: "is_double (ddiv a b)"
  by (cases a; cases b) (simp_all add: inf_times_def)

lemma of_u64_is_double [wf_intros, simp]: "is_double (of_u64 w)"
  by (simp add: of_u64_def)

lemma rnd_interval:
  assumes "is_double (Fin a)" "is_double (Fin b)" "a \<le> x" "x \<le> b"
  obtains r where "rnd x = Fin r" "a \<le> r" "r \<le> b"
  using rnd_ge [OF assms(1,3)] rnd_le [OF assms(2,4)] by (rule dle_between_Fin)

lemma dlt_irrefl [simp]: "\<not> dlt a a"
  by (cases a) simp_all

lemma dlt_iff_dle: "a \<noteq> NaN \<Longrightarrow> b \<noteq> NaN \<Longrightarrow> dlt a b \<longleftrightarrow> \<not> dle b a"
  by (cases a; cases b) auto

lemma dge_iff_dle: "dge a b \<longleftrightarrow> dle b a"
  by (cases a; cases b) (auto simp: dge_def)

section \<open>Order properties of the operations\<close>

lemma dle_refl: "a \<noteq> NaN \<Longrightarrow> dle a a"
  by (cases a) simp_all

lemma dle_not_NaN: "dle a b \<Longrightarrow> a \<noteq> NaN \<and> b \<noteq> NaN"
  by (cases a; cases b) simp_all

lemma dlt_imp_dle: "dlt a b \<Longrightarrow> dle a b"
  by (cases a; cases b) auto

lemma dneg_mono: "dle a b \<Longrightarrow> dle (dneg b) (dneg a)"
  by (cases a; cases b) auto

lemma dadd_mono:
  assumes "dle a a'" and "dle b b'" and "dadd a b \<noteq> NaN" and "dadd a' b' \<noteq> NaN"
  shows "dle (dadd a b) (dadd a' b')"
proof -
  have fin: "dle NInf (rnd x)" "dle (rnd x) PInf" for x
    using rnd_not_NaN [of x] by (cases "rnd x"; simp)+
  show ?thesis
    using assms by (cases a; cases a'; cases b; cases b') (auto simp: fin intro: rnd_mono add_mono)
qed

lemma dsub_mono:
  "dle s t \<Longrightarrow> dle p q \<Longrightarrow> dsub s q \<noteq> NaN \<Longrightarrow> dsub t p \<noteq> NaN \<Longrightarrow> dle (dsub s q) (dsub t p)"
  unfolding dsub_def by (intro dadd_mono dneg_mono)

lemma dmul_mono_Fin: "dle p q \<Longrightarrow> 0 < c \<Longrightarrow> dle (dmul p (Fin c)) (dmul q (Fin c))"
proof -
  have fin: "dle NInf (rnd x)" "dle (rnd x) PInf" for x
    using rnd_not_NaN [of x] by (cases "rnd x"; simp)+
  show "dle p q \<Longrightarrow> 0 < c \<Longrightarrow> dle (dmul p (Fin c)) (dmul q (Fin c))"
    by (cases p; cases q) (auto simp: fin inf_times_def intro: rnd_mono mult_right_mono)
qed

lemma dmul_nonneg: "dle (Fin 0) p \<Longrightarrow> 0 < c \<Longrightarrow> dle (Fin 0) (dmul p (Fin c))"
  using dmul_mono_Fin [of "Fin 0" p c] by simp

lemma dsub_Fin_mono: "dle x y \<Longrightarrow> dle (dsub x (Fin a)) (dsub y (Fin a))"
proof -
  have fin: "dle NInf (rnd x)" "dle (rnd x) PInf" for x
    using rnd_not_NaN [of x] by (cases "rnd x"; simp)+
  show "dle x y \<Longrightarrow> dle (dsub x (Fin a)) (dsub y (Fin a))"
    unfolding dsub_def by (cases x; cases y) (auto simp: fin intro: rnd_mono)
qed

lemma dsub_nonneg: "dle (Fin a) x \<Longrightarrow> dle (Fin 0) (dsub x (Fin a))"
  using dsub_Fin_mono [of "Fin a" x a] by (simp add: dsub_def)

text \<open>Subtracting something non-negative from a value below infinity.\<close>

lemma dsub_dec:
  assumes "is_double s" and "dle s (Fin m)" and "dle (Fin 0) p"
  shows "dle (dsub s p) s"
  using assms unfolding dsub_def
  by (cases s; cases p) (auto intro: rnd_le)

lemma dsub_bounded_not_NaN: "dle s (Fin m) \<Longrightarrow> dle (Fin 0) p \<Longrightarrow> dsub s p \<noteq> NaN"
  unfolding dsub_def by (cases s; cases p) auto

lemma dmax_mono: "dle s t \<Longrightarrow> dle (dmax (Fin a) s) (dmax (Fin a) t)"
  by (cases s; cases t) (auto simp: dmax_def)

end
