(* ===== verification/Messages.thy ===== *)
theory Messages
  imports Double
begin

text \<open>
  The protobuf messages the worker and the manager exchange (\<open>src/proto/*.proto\<close>), one record
  per message with the fields in declaration order. A field of message type is an option,
  since protobuf tracks its presence; reading an absent one yields the message's default
  instance, whose scalar fields are all zero.
\<close>

record CpuLoad =
  cl_load_1m :: double
  cl_load_5m :: double
  cl_load_15m :: double
  cl_nr_cores :: i32

definition CpuLoad_default :: CpuLoad where
  "CpuLoad_default = \<lparr>cl_load_1m = Fin 0, cl_load_5m = Fin 0, cl_load_15m = Fin 0, cl_nr_cores = 0\<rparr>"

record CpuStat =
  cs_user_pct :: double
  cs_system_pct :: double
  cs_idle_pct :: double
  cs_iowait_pct :: double
  cs_steal_pct :: double
  cs_softirq_pct :: double

definition CpuStat_default :: CpuStat where
  "CpuStat_default = \<lparr>cs_user_pct = Fin 0, cs_system_pct = Fin 0, cs_idle_pct = Fin 0,
     cs_iowait_pct = Fin 0, cs_steal_pct = Fin 0, cs_softirq_pct = Fin 0\<rparr>"

record DiskInfo =
  di_device :: string
  di_read_mbps :: double
  di_write_mbps :: double
  di_iops :: double
  di_io_latency_ms :: double

record MemInfo =
  mi_total_gb :: double
  mi_used_gb :: double
  mi_free_gb :: double
  mi_available_gb :: double
  mi_cached_gb :: double
  mi_buffers_gb :: double
  mi_swap_total_gb :: double
  mi_swap_used_gb :: double
  mi_used_pct :: double

definition MemInfo_default :: MemInfo where
  "MemInfo_default = \<lparr>mi_total_gb = Fin 0, mi_used_gb = Fin 0, mi_free_gb = Fin 0,
     mi_available_gb = Fin 0, mi_cached_gb = Fin 0, mi_buffers_gb = Fin 0,
     mi_swap_total_gb = Fin 0, mi_swap_used_gb = Fin 0, mi_used_pct = Fin 0\<rparr>"

record NetInfo =
  ni_iface :: string
  ni_rx_mbps :: double
  ni_tx_mbps :: double
  ni_rx_packets :: u64
  ni_tx_packets :: u64
  ni_rx_dropped :: u64
  ni_tx_dropped :: u64
  ni_rx_errors :: u64
  ni_tx_errors :: u64

record ProcessEvent =
  pe_comm :: string
  pe_pid :: u32
  pe_ppid :: u32
  pe_filename :: string
  pe_event :: string
  pe_ts_ns :: i64

record FlowEvent =
  fe_pid :: u32
  fe_comm :: string
  fe_ppid_comm :: string
  fe_exe :: string
  fe_src_ip :: string
  fe_src_port :: u32
  fe_dst_ip :: string
  fe_dst_port :: u32
  fe_bytes_sent :: u64
  fe_bytes_recv :: u64
  fe_connect_latency_ns :: u64
  fe_state :: string
  fe_start_ns :: u64
  fe_last_ns :: u64

record ObserveBatch =
  ob_process_events :: "ProcessEvent list"
  ob_flow_events :: "FlowEvent list"

record DiagnoseEvent =
  de_type :: string
  de_process_name :: string
  de_thread_name :: string
  de_file_path :: string
  de_timestamp :: int
  de_cpu_percent :: double

record MonitorInfo =
  m_hostname :: string
  m_ip :: string
  m_timestamp :: int
  m_cpu_load :: "CpuLoad option"
  m_cpu_stat :: "CpuStat option"
  m_mem :: "MemInfo option"
  m_disks :: "DiskInfo list"
  m_nets :: "NetInfo list"
  m_observe_batch :: "ObserveBatch option"
  m_diagnose_events :: "DiagnoseEvent list"

definition MonitorInfo_default :: MonitorInfo where
  "MonitorInfo_default = \<lparr>m_hostname = '''', m_ip = '''', m_timestamp = 0, m_cpu_load = None,
     m_cpu_stat = None, m_mem = None, m_disks = [], m_nets = [], m_observe_batch = None,
     m_diagnose_events = []\<rparr>"

record SetResponse =
  r_ok :: bool
  r_message :: string

text \<open>The accessors \<open>cpu_load()\<close>, \<open>cpu_stat()\<close> and \<open>mem()\<close>.\<close>

definition get_cpu_load :: "MonitorInfo \<Rightarrow> CpuLoad" where
  "get_cpu_load m = (case m_cpu_load m of Some x \<Rightarrow> x | None \<Rightarrow> CpuLoad_default)"

definition get_cpu_stat :: "MonitorInfo \<Rightarrow> CpuStat" where
  "get_cpu_stat m = (case m_cpu_stat m of Some x \<Rightarrow> x | None \<Rightarrow> CpuStat_default)"

definition get_mem :: "MonitorInfo \<Rightarrow> MemInfo" where
  "get_mem m = (case m_mem m of Some x \<Rightarrow> x | None \<Rightarrow> MemInfo_default)"

end
