(* ===== verification/HostManager.thy ===== *)
theory HostManager
  imports Messages
begin

text \<open>
  The manager's in-memory store (\<open>src/manager/include/host_manager.h\<close>,
  \<open>src/manager/src/host_manager.cpp\<close>): one snapshot per host with a health score and the last
  20 diagnose events. Every public method holds \<open>mutex_\<close> for its whole body, so each is one
  atomic function on the store. \<open>int64_t\<close> times come from \<open>time()\<close> and are integers; the
  observe counters are 64-bit words.

  The interface the server and the exporter rely on is the locale \<open>host_store\<close>; the model's
  operations interpret it.
\<close>

section \<open>Data\<close>

record DiagnoseRecord =
  dr_type :: string
  dr_process_name :: string
  dr_file_path :: string
  dr_timestamp :: int
  dr_cpu_percent :: double

record HostSnapshot =
  hs_load_1m :: double
  hs_cpu_used_pct :: double
  hs_mem_used_pct :: double
  hs_disk_iops :: double
  hs_net_rx_mbps :: double
  hs_net_tx_mbps :: double
  hs_net_rx_dropped :: double
  hs_last_update :: int
  hs_health_score :: double
  hs_hostname :: string
  hs_proc_exec_count :: i64
  hs_proc_exit_count :: i64
  hs_tcp_flow_count :: i64
  hs_tcp_bytes_sent :: i64
  hs_tcp_bytes_recv :: i64
  hs_diagnose_events :: "DiagnoseRecord list"

text \<open>\<open>HostSnapshot{}\<close>: the in-class initialisers.\<close>

definition HostSnapshot_default :: HostSnapshot where
  "HostSnapshot_default =
     \<lparr>hs_load_1m = Fin 0, hs_cpu_used_pct = Fin 0, hs_mem_used_pct = Fin 0, hs_disk_iops = Fin 0,
      hs_net_rx_mbps = Fin 0, hs_net_tx_mbps = Fin 0, hs_net_rx_dropped = Fin 0,
      hs_last_update = 0, hs_health_score = Fin 100, hs_hostname = '''',
      hs_proc_exec_count = 0, hs_proc_exit_count = 0, hs_tcp_flow_count = 0,
      hs_tcp_bytes_sent = 0, hs_tcp_bytes_recv = 0, hs_diagnose_events = []\<rparr>"

type_synonym hosts = "(string \<times> HostSnapshot) list"

section \<open>Operations\<close>

definition ComputeHealth :: "HostSnapshot \<Rightarrow> double" where
  "ComputeHealth snap =
     (let score = Fin 100;
          score = (if dlt (Fin 8) (hs_load_1m snap)
                   then dsub score (dmul (dsub (hs_load_1m snap) (Fin 8)) (Fin 5)) else score);
          score = (if dlt (Fin 90) (hs_cpu_used_pct snap)
                   then dsub score (dmul (dsub (hs_cpu_used_pct snap) (Fin 90)) (Fin 2)) else score);
          score = (if dlt (Fin 85) (hs_mem_used_pct snap)
                   then dsub score (dmul (dsub (hs_mem_used_pct snap) (Fin 85)) (Fin 2)) else score);
          score = (if dlt (Fin 100) (hs_net_rx_dropped snap) then dsub score (Fin 10) else score)
      in dmax (Fin 0) score)"

definition Update :: "string \<Rightarrow> HostSnapshot \<Rightarrow> hosts \<Rightarrow> hosts" where
  "Update hostname snap hosts =
     (let entry = (case map_of hosts hostname of Some e \<Rightarrow> e | None \<Rightarrow> HostSnapshot_default);
          prev_diag = hs_diagnose_events entry;
          entry = snap\<lparr>hs_hostname := hostname, hs_health_score := ComputeHealth snap\<rparr>;
          prev_diag = prev_diag @ hs_diagnose_events snap;
          prev_diag = (if 20 < length prev_diag then drop (length prev_diag - 20) prev_diag
                       else prev_diag)
      in AList.update hostname (entry\<lparr>hs_diagnose_events := prev_diag\<rparr>) hosts)"

definition Get :: "string \<Rightarrow> hosts \<Rightarrow> HostSnapshot" where
  "Get hostname hosts =
     (case map_of hosts hostname of Some e \<Rightarrow> e | None \<Rightarrow> HostSnapshot_default)"

text \<open>\<open>ord\<close> is the iteration order of the hash map.\<close>

definition GetAll :: "(hosts \<Rightarrow> hosts) \<Rightarrow> hosts \<Rightarrow> HostSnapshot list" where
  "GetAll ord hosts = map snd (ord hosts)"

text \<open>The \<open>while\<close> loop with \<open>erase\<close>, and \<open>now = time(nullptr)\<close> as an argument.\<close>

fun RemoveExpired :: "int \<Rightarrow> int \<Rightarrow> hosts \<Rightarrow> hosts" where
  "RemoveExpired now max_age_s [] = []"
| "RemoveExpired now max_age_s ((k, v) # it) =
     (if now - hs_last_update v > max_age_s then RemoveExpired now max_age_s it
      else (k, v) # RemoveExpired now max_age_s it)"

section \<open>The health score\<close>

text \<open>One threshold of the score: a penalty proportional to the excess.\<close>

definition penalise :: "rat \<Rightarrow> rat \<Rightarrow> double \<Rightarrow> double \<Rightarrow> double" where
  "penalise a c x score =
     (if dlt (Fin a) x then dsub score (dmul (dsub x (Fin a)) (Fin c)) else score)"

definition penalise_drops :: "double \<Rightarrow> double \<Rightarrow> double" where
  "penalise_drops x score = (if dlt (Fin 100) x then dsub score (Fin 10) else score)"

lemma ComputeHealth_eq:
  "ComputeHealth snap =
     dmax (Fin 0) (penalise_drops (hs_net_rx_dropped snap)
       (penalise 85 2 (hs_mem_used_pct snap) (penalise 90 2 (hs_cpu_used_pct snap)
         (penalise 8 5 (hs_load_1m snap) (Fin 100)))))"
  by (simp add: ComputeHealth_def penalise_def penalise_drops_def Let_def)

text \<open>A score on its way down from 100.\<close>

definition score_ok :: "double \<Rightarrow> bool" where
  "score_ok s \<longleftrightarrow> is_double s \<and> dle s (Fin 100)"

lemma excess_nonneg: "dlt (Fin a) x \<Longrightarrow> 0 < c \<Longrightarrow> dle (Fin 0) (dmul (dsub x (Fin a)) (Fin c))"
  by (intro dmul_nonneg dsub_nonneg dlt_imp_dle)

lemma score_ok_dsub: "score_ok s \<Longrightarrow> dle (Fin 0) p \<Longrightarrow> score_ok (dsub s p)"
  unfolding score_ok_def by (meson dle_trans dsub_dec dsub_is_double)

lemma score_ok_100 [simp]: "score_ok (Fin 100)"
  by (simp add: score_ok_def)

lemma score_ok_penalise [wf_intros]: "0 < c \<Longrightarrow> score_ok s \<Longrightarrow> score_ok (penalise a c x s)"
  by (simp add: penalise_def score_ok_dsub excess_nonneg)

lemma score_ok_drops [wf_intros]: "score_ok s \<Longrightarrow> score_ok (penalise_drops x s)"
  by (simp add: penalise_drops_def score_ok_dsub)

lemma penalise_antimono:
  assumes "dle x y" and "dle s t" and "score_ok s" and "score_ok t" and c: "0 < c"
  shows "dle (penalise a c y s) (penalise a c x t)"
proof (cases "dlt (Fin a) x")
  case True
  with assms(1) have y: "dlt (Fin a) y" by (cases x; cases y) auto
  have "dle (dsub s (dmul (dsub y (Fin a)) (Fin c))) (dsub t (dmul (dsub x (Fin a)) (Fin c)))"
    using assms True y
    by (intro dsub_mono dmul_mono_Fin dsub_Fin_mono dsub_bounded_not_NaN [of _ 100] excess_nonneg)
       (auto simp: score_ok_def)
  with True y show ?thesis by (simp add: penalise_def)
next
  case False
  have "dle (penalise a c y s) s"
    using assms dle_not_NaN [OF assms(2)]
    by (auto simp: penalise_def score_ok_def intro: dsub_dec [of _ 100] excess_nonneg dle_refl)
  with False assms(2) show ?thesis by (auto simp: penalise_def intro: dle_trans)
qed

lemma penalise_drops_antimono:
  assumes "dle x y" and "dle s t" and "score_ok s" and "score_ok t"
  shows "dle (penalise_drops y s) (penalise_drops x t)"
proof (cases "dlt (Fin 100) x")
  case True
  with assms(1) have "dlt (Fin 100) y" by (cases x; cases y) auto
  with True assms(2) show ?thesis by (simp add: penalise_drops_def dsub_Fin_mono)
next
  case False
  have "dle (penalise_drops y s) s"
    using assms dle_not_NaN [OF assms(2)]
    by (auto simp: penalise_drops_def score_ok_def intro: dsub_dec [of _ 100] dle_refl)
  with False assms(2) show ?thesis by (auto simp: penalise_drops_def intro: dle_trans)
qed

lemma health_in_range:
  "\<exists>r. ComputeHealth snap = Fin r \<and> 0 \<le> r \<and> r \<le> 100"
proof -
  have "score_ok (penalise_drops (hs_net_rx_dropped snap)
       (penalise 85 2 (hs_mem_used_pct snap) (penalise 90 2 (hs_cpu_used_pct snap)
         (penalise 8 5 (hs_load_1m snap) (Fin 100)))))" (is "score_ok ?s")
    by (intro wf_intros score_ok_100) simp_all
  then show ?thesis
    unfolding ComputeHealth_eq dmax_def by (cases ?s) (auto simp: score_ok_def)
qed

lemma health_antimono:
  assumes "dle (hs_load_1m s) (hs_load_1m t)" and "dle (hs_cpu_used_pct s) (hs_cpu_used_pct t)"
    and "dle (hs_mem_used_pct s) (hs_mem_used_pct t)"
    and "dle (hs_net_rx_dropped s) (hs_net_rx_dropped t)"
  shows "dle (ComputeHealth t) (ComputeHealth s)"
  unfolding ComputeHealth_eq
  by (intro dmax_mono penalise_drops_antimono penalise_antimono assms wf_intros score_ok_100)
     simp_all

section \<open>The store\<close>

lemma health_dle: "dle (Fin 0) (ComputeHealth snap)" "dle (ComputeHealth snap) (Fin 100)"
  using health_in_range [of snap] by auto

text \<open>The invariant of the store: keys are unique and name their entry, logs are bounded, scores are in range.\<close>

definition entry_ok :: "string \<Rightarrow> HostSnapshot \<Rightarrow> bool" where
  "entry_ok k v \<longleftrightarrow> hs_hostname v = k \<and> length (hs_diagnose_events v) \<le> 20 \<and>
     dle (Fin 0) (hs_health_score v) \<and> dle (hs_health_score v) (Fin 100)"

definition hosts_ok :: "hosts \<Rightarrow> bool" where
  "hosts_ok hosts \<longleftrightarrow> distinct (map fst hosts) \<and> list_all (\<lambda>(k, v). entry_ok k v) hosts"

text \<open>The entry \<open>Update\<close> stores, with the two branches of the trimming as one.\<close>

definition updated_entry :: "string \<Rightarrow> HostSnapshot \<Rightarrow> hosts \<Rightarrow> HostSnapshot" where
  "updated_entry hostname snap hosts =
     snap\<lparr>hs_hostname := hostname, hs_health_score := ComputeHealth snap,
          hs_diagnose_events :=
            last_n 20 (hs_diagnose_events (Get hostname hosts) @ hs_diagnose_events snap)\<rparr>"

lemma Update_eq: "Update hostname snap hosts = AList.update hostname (updated_entry hostname snap hosts) hosts"
  by (simp add: Update_def updated_entry_def Get_def last_n_def Let_def)

lemma entry_ok_updated: "entry_ok k (updated_entry k snap hosts)"
  by (simp add: entry_ok_def updated_entry_def health_dle)

lemma set_update_subset: "set (AList.update k v m) \<subseteq> insert (k, v) (set m)"
  by (induction m) auto

lemma hosts_ok_empty [wf_intros, simp]: "hosts_ok []"
  by (simp add: hosts_ok_def)

lemma hosts_ok_Update [wf_intros]: "hosts_ok hosts \<Longrightarrow> hosts_ok (Update k snap hosts)"
  using set_update_subset [of k "updated_entry k snap hosts" hosts]
  by (auto simp: hosts_ok_def Update_eq list_all_iff distinct_update entry_ok_updated)

lemma RemoveExpired_filter:
  "RemoveExpired now age hosts = filter (\<lambda>(k, v). \<not> now - hs_last_update v > age) hosts"
  by (induction now age hosts rule: RemoveExpired.induct) auto

lemma hosts_ok_RemoveExpired [wf_intros]: "hosts_ok hosts \<Longrightarrow> hosts_ok (RemoveExpired now age hosts)"
  by (auto simp: hosts_ok_def RemoveExpired_filter list_all_iff distinct_map_filter)

lemma Get_Update: "Get k (Update k' snap hosts) = (if k = k' then updated_entry k' snap hosts else Get k hosts)"
  by (simp add: Get_def Update_eq update_conv')

lemma Get_default_log [simp]: "hs_diagnose_events HostSnapshot_default = []"
  by (simp add: HostSnapshot_default_def)

lemma Get_log_bounded: "hosts_ok hosts \<Longrightarrow> length (hs_diagnose_events (Get k hosts)) \<le> 20"
  by (auto simp: Get_def hosts_ok_def list_all_iff entry_ok_def split: option.splits)

lemma Get_RemoveExpired:
  assumes "hosts_ok hosts"
  shows "Get k (RemoveExpired now age hosts) =
    (if now - hs_last_update (Get k hosts) > age then HostSnapshot_default else Get k hosts)"
proof -
  have d: "distinct (map fst hosts)" using assms by (simp add: hosts_ok_def)
  have d': "distinct (map fst (RemoveExpired now age hosts))"
    using hosts_ok_RemoveExpired [OF assms] by (simp add: hosts_ok_def)
  have some: "map_of (RemoveExpired now age hosts) k = Some v \<longleftrightarrow>
      map_of hosts k = Some v \<and> \<not> now - hs_last_update v > age" for v
    using d d' by (simp add: RemoveExpired_filter)
  show ?thesis
  proof (cases "map_of hosts k")
    case None
    then have "map_of (RemoveExpired now age hosts) k = None"
      using some by (metis not_None_eq)
    with None show ?thesis by (simp add: Get_def)
  next
    case (Some v)
    then show ?thesis
      using some [of v] some by (cases "now - hs_last_update v > age")
        (auto simp: Get_def split: option.splits)
  qed
qed

section \<open>The interface of the store\<close>

text \<open>
  What the gRPC server and the exporter rely on: a report replaces one host's snapshot and
  nothing else, and its events go to the end of a log of bounded length.
\<close>

locale host_store =
  fixes update :: "'k \<Rightarrow> 's \<Rightarrow> 'h \<Rightarrow> 'h" and get :: "'k \<Rightarrow> 'h \<Rightarrow> 's"
    and log :: "'s \<Rightarrow> 'e list" and bound :: nat and wf :: "'h \<Rightarrow> bool"
  assumes wf_update: "wf h \<Longrightarrow> wf (update k s h)"
    and get_other: "k' \<noteq> k \<Longrightarrow> get k' (update k s h) = get k' h"
    and log_update: "log (get k (update k s h)) = last_n bound (log (get k h) @ log s)"
    and log_bounded: "wf h \<Longrightarrow> length (log (get k h)) \<le> bound"
begin

lemma log_update_any:
  "wf h \<Longrightarrow> log (get k (update k' s h)) =
     last_n bound (log (get k h) @ (if k' = k then log s else []))"
  by (cases "k' = k") (auto simp: log_update get_other log_bounded)

lemma log_history:
  assumes "wf h"
  shows "log (get k (fold (\<lambda>(k', s). update k' s) us h)) =
     last_n bound (log (get k h) @ concat (map (\<lambda>(k', s). if k' = k then log s else []) us))"
  using assms
proof (induction us arbitrary: h)
  case Nil
  then show ?case by (simp add: log_bounded)
next
  case (Cons u us)
  obtain k' s where u: "u = (k', s)" by (cases u)
  have wf: "wf (update k' s h)" using Cons.prems by (rule wf_update)
  show ?case
    unfolding u fold.simps comp_def prod.case Cons.IH [OF wf] log_update_any [OF Cons.prems]
    by (simp add: last_n_append_absorb)
qed

end

text \<open>A store whose entries carry a time stamp and are dropped when they get too old.\<close>

locale expiring_store = host_store +
  fixes stamp :: "'b \<Rightarrow> int" and dflt :: 'b and expire :: "int \<Rightarrow> int \<Rightarrow> 'c \<Rightarrow> 'c"
  assumes wf_expire: "wf h \<Longrightarrow> wf (expire now age h)"
    and get_expire: "wf h \<Longrightarrow>
      get k (expire now age h) = (if now - stamp (get k h) > age then dflt else get k h)"
begin

lemma expire_keeps_fresh:
  "wf h \<Longrightarrow> now - stamp (get k h) \<le> age \<Longrightarrow> get k (expire now age h) = get k h"
  by (simp add: get_expire)

lemma expire_idem:
  "wf h \<Longrightarrow> stamp dflt = 0 \<Longrightarrow> get k (expire now age (expire now age h)) = get k (expire now age h)"
  by (simp add: get_expire wf_expire)

end

text \<open>The manager's store provides both contracts, with a log of 20 events.\<close>

interpretation hm: expiring_store Update Get hs_diagnose_events 20 hosts_ok hs_last_update
  HostSnapshot_default RemoveExpired
proof unfold_locales
  show "hosts_ok h \<Longrightarrow> hosts_ok (Update k s h)" for h k s
    by (rule hosts_ok_Update)
  show "k' \<noteq> k \<Longrightarrow> Get k' (Update k s h) = Get k' h" for k' k s h
    by (simp add: Get_Update)
  show "hs_diagnose_events (Get k (Update k s h)) =
      last_n 20 (hs_diagnose_events (Get k h) @ hs_diagnose_events s)" for k s h
    by (simp add: Get_Update updated_entry_def)
  show "hosts_ok h \<Longrightarrow> length (hs_diagnose_events (Get k h)) \<le> 20" for h k
    by (rule Get_log_bounded)
  show "hosts_ok h \<Longrightarrow> hosts_ok (RemoveExpired now age h)" for h now age
    by (rule hosts_ok_RemoveExpired)
  show "hosts_ok h \<Longrightarrow> Get k (RemoveExpired now age h) =
      (if now - hs_last_update (Get k h) > age then HostSnapshot_default else Get k h)" for h k now age
    by (rule Get_RemoveExpired)
qed

section \<open>Properties\<close>

text \<open>
  C14: the health score is a finite number between 0 and 100 for every snapshot, whatever the
  reported metrics are, infinities and NaN included.
\<close>

theorem health_score_range:
  "\<exists>r. ComputeHealth snap = Fin r \<and> 0 \<le> r \<and> r \<le> 100"
  by (rule health_in_range)

text \<open>
  C15: the health score never rises when metrics get worse: if load, CPU, memory and dropped
  packets of one snapshot are each at most those of another, the first has at least the
  second's score, rounding included.
\<close>

theorem health_score_antitone:
  assumes "dle (hs_load_1m s) (hs_load_1m t)" and "dle (hs_cpu_used_pct s) (hs_cpu_used_pct t)"
    and "dle (hs_mem_used_pct s) (hs_mem_used_pct t)"
    and "dle (hs_net_rx_dropped s) (hs_net_rx_dropped t)"
  shows "dle (ComputeHealth t) (ComputeHealth s)"
  using assms by (rule health_antimono)

theorem health_score_antitone_witness:
  "dle (ComputeHealth (HostSnapshot_default\<lparr>hs_load_1m := Fin 12, hs_mem_used_pct := PInf\<rparr>))
       (ComputeHealth (HostSnapshot_default\<lparr>hs_load_1m := Fin 10\<rparr>))"
  using health_score_antitone [of "HostSnapshot_default\<lparr>hs_load_1m := Fin 10\<rparr>"
      "HostSnapshot_default\<lparr>hs_load_1m := Fin 12, hs_mem_used_pct := PInf\<rparr>"]
  by (simp add: HostSnapshot_default_def)

text \<open>
  C16: an expiry pass removes exactly the hosts whose last update is more than \<open>max_age_s\<close>
  seconds old: on a well-formed store every other host keeps its snapshot, and a removed one
  is answered with the default snapshot afterwards.
\<close>

theorem remove_expired_exact:
  assumes "hosts_ok hosts"
  shows "set (RemoveExpired now age hosts) = {(k, v) \<in> set hosts. now - hs_last_update v \<le> age} \<and>
    Get k (RemoveExpired now age hosts) =
      (if now - hs_last_update (Get k hosts) > age then HostSnapshot_default else Get k hosts)"
  using Get_RemoveExpired [OF assms, of k now age]
  by (auto simp: RemoveExpired_filter)

theorem remove_expired_exact_witness:
  "Get ''a'' (RemoveExpired 100 60 (Update ''b'' (HostSnapshot_default\<lparr>hs_last_update := 90\<rparr>)
     (Update ''a'' (HostSnapshot_default\<lparr>hs_last_update := 30\<rparr>) []))) = HostSnapshot_default"
proof -
  have ok: "hosts_ok (Update ''b'' (HostSnapshot_default\<lparr>hs_last_update := 90\<rparr>)
     (Update ''a'' (HostSnapshot_default\<lparr>hs_last_update := 30\<rparr>) []))"
    by (intro wf_intros)
  from remove_expired_exact [OF ok, of 100 60 "''a''"] show ?thesis
    by (simp add: Get_Update updated_entry_def)
qed

end
