(* ===== verification/GrpcServer.thy ===== *)
theory GrpcServer
  imports HostManager
begin

text \<open>
  The manager's gRPC service (\<open>src/manager/src/rpc/grpc_server.cpp\<close>) and the manager process
  as a transition system: reports arrive on gRPC threads, the main loop drops hosts that have
  been silent for 60 seconds, readers only read. The store's mutex makes each call one step.
\<close>

section \<open>The server object\<close>

text \<open>The object refers to the store and owns the server; \<open>built\<close> is whether \<open>BuildAndStart\<close> returned one.\<close>

record GrpcServer =
  gs_server :: bool

definition GrpcServer_new :: GrpcServer where
  "GrpcServer_new = \<lparr>gs_server = False\<rparr>"

definition Grpc_Start :: "(string \<Rightarrow> bool) \<Rightarrow> string \<Rightarrow> GrpcServer \<Rightarrow> GrpcServer" where
  "Grpc_Start built addr g = g\<lparr>gs_server := built addr\<rparr>"

section \<open>The handlers\<close>

text \<open>The loops of \<open>SetMonitorInfo\<close>, in the order of the code.\<close>

fun sum_iops :: "double \<Rightarrow> DiskInfo list \<Rightarrow> double" where
  "sum_iops acc [] = acc"
| "sum_iops acc (d # ds) = sum_iops (dadd acc (di_iops d)) ds"

fun sum_nets :: "double \<times> double \<times> double \<Rightarrow> NetInfo list \<Rightarrow> double \<times> double \<times> double" where
  "sum_nets acc [] = acc"
| "sum_nets (rx, tx, rx_dropped) (n # ns) =
     sum_nets (dadd rx (ni_rx_mbps n), dadd tx (ni_tx_mbps n),
               dadd rx_dropped (of_u64 (ni_rx_dropped n))) ns"

fun count_process_events :: "HostSnapshot \<Rightarrow> ProcessEvent list \<Rightarrow> HostSnapshot" where
  "count_process_events snap [] = snap"
| "count_process_events snap (pe # pes) =
     count_process_events
       (if pe_event pe = ''exec'' then snap\<lparr>hs_proc_exec_count := hs_proc_exec_count snap + 1\<rparr>
        else snap\<lparr>hs_proc_exit_count := hs_proc_exit_count snap + 1\<rparr>) pes"

fun count_flow_events :: "HostSnapshot \<Rightarrow> FlowEvent list \<Rightarrow> HostSnapshot" where
  "count_flow_events snap [] = snap"
| "count_flow_events snap (fe # fes) =
     count_flow_events
       (snap\<lparr>hs_tcp_flow_count := hs_tcp_flow_count snap + 1,
             hs_tcp_bytes_sent := hs_tcp_bytes_sent snap + fe_bytes_sent fe,
             hs_tcp_bytes_recv := hs_tcp_bytes_recv snap + fe_bytes_recv fe\<rparr>) fes"

definition diagnose_record :: "DiagnoseEvent \<Rightarrow> DiagnoseRecord" where
  "diagnose_record de =
     \<lparr>dr_type = de_type de, dr_process_name = de_process_name de, dr_file_path = de_file_path de,
      dr_timestamp = de_timestamp de, dr_cpu_percent = de_cpu_percent de\<rparr>"

text \<open>The snapshot a report becomes; \<open>now\<close> is \<open>time(nullptr)\<close>.\<close>

definition build_snapshot :: "int \<Rightarrow> MonitorInfo \<Rightarrow> HostSnapshot" where
  "build_snapshot now request =
     (let snap = HostSnapshot_default\<lparr>
            hs_last_update := now,
            hs_load_1m := cl_load_1m (get_cpu_load request),
            hs_cpu_used_pct := dsub (Fin 100) (cs_idle_pct (get_cpu_stat request)),
            hs_mem_used_pct := mi_used_pct (get_mem request),
            hs_disk_iops := sum_iops (Fin 0) (m_disks request)\<rparr>;
          (rx, tx, rx_dropped) = sum_nets (Fin 0, Fin 0, Fin 0) (m_nets request);
          snap = snap\<lparr>hs_net_rx_mbps := rx, hs_net_tx_mbps := tx, hs_net_rx_dropped := rx_dropped\<rparr>;
          snap = (case m_observe_batch request of
              Some batch \<Rightarrow>
                count_flow_events (count_process_events snap (ob_process_events batch))
                  (ob_flow_events batch)
            | None \<Rightarrow> snap)
      in snap\<lparr>hs_diagnose_events :=
            hs_diagnose_events snap @ map diagnose_record (m_diagnose_events request)\<rparr>)"

definition SetMonitorInfo :: "int \<Rightarrow> MonitorInfo \<Rightarrow> hosts \<Rightarrow> hosts \<times> SetResponse" where
  "SetMonitorInfo now request hosts =
     (Update (m_hostname request) (build_snapshot now request) hosts,
      \<lparr>r_ok = True, r_message = ''OK''\<rparr>)"

text \<open>\<open>GetMonitorInfo\<close> answers with status OK whether or not the host is known.\<close>

definition GetMonitorInfo :: "string \<Rightarrow> hosts \<Rightarrow> MonitorInfo" where
  "GetMonitorInfo hostname hosts =
     (let snap = Get hostname hosts
      in MonitorInfo_default\<lparr>
           m_hostname := hostname,
           m_timestamp := hs_last_update snap,
           m_cpu_load := Some (CpuLoad_default\<lparr>cl_load_1m := hs_load_1m snap\<rparr>),
           m_cpu_stat := Some (CpuStat_default\<lparr>cs_idle_pct := dsub (Fin 100) (hs_cpu_used_pct snap)\<rparr>),
           m_mem := Some (MemInfo_default\<lparr>mi_used_pct := hs_mem_used_pct snap\<rparr>)\<rparr>)"

section \<open>The manager process\<close>

text \<open>
  The steps of the manager on its store: a report handled by \<open>SetMonitorInfo\<close> and one pass of
  the main loop's \<open>RemoveExpired(60)\<close> (\<open>src/manager/src/main.cpp\<close>).
\<close>

datatype mgr_event = Report int MonitorInfo | Tick int

fun mgr_step :: "mgr_event \<Rightarrow> hosts \<Rightarrow> hosts" where
  "mgr_step (Report now request) hosts = fst (SetMonitorInfo now request hosts)"
| "mgr_step (Tick now) hosts = RemoveExpired now 60 hosts"

definition mgr_run :: "mgr_event list \<Rightarrow> hosts \<Rightarrow> hosts" where
  "mgr_run evs hosts = fold mgr_step evs hosts"

inductive mgr_reachable :: "hosts \<Rightarrow> bool" where
  start: "mgr_reachable []"
| step: "mgr_reachable hosts \<Longrightarrow> mgr_reachable (mgr_step ev hosts)"

section \<open>What a report becomes\<close>

lemma process_counts:
  "count_process_events snap pes =
     snap\<lparr>hs_proc_exec_count := hs_proc_exec_count snap + of_nat (length (filter (\<lambda>p. pe_event p = ''exec'') pes)),
          hs_proc_exit_count := hs_proc_exit_count snap + of_nat (length (filter (\<lambda>p. pe_event p \<noteq> ''exec'') pes))\<rparr>"
  by (induction snap pes rule: count_process_events.induct) (simp_all add: algebra_simps)

lemma flow_counts:
  "count_flow_events snap fes =
     snap\<lparr>hs_tcp_flow_count := hs_tcp_flow_count snap + of_nat (length fes),
          hs_tcp_bytes_sent := hs_tcp_bytes_sent snap + sum_list (map fe_bytes_sent fes),
          hs_tcp_bytes_recv := hs_tcp_bytes_recv snap + sum_list (map fe_bytes_recv fes)\<rparr>"
  by (induction snap fes rule: count_flow_events.induct) (simp_all add: algebra_simps)

lemma snapshot_stamp [simp]: "hs_last_update (build_snapshot now r) = now"
  by (simp add: build_snapshot_def Let_def process_counts flow_counts split: prod.splits option.splits)

lemma snapshot_events [simp]:
  "hs_diagnose_events (build_snapshot now r) = map diagnose_record (m_diagnose_events r)"
  by (simp add: build_snapshot_def Let_def process_counts flow_counts HostSnapshot_default_def
      split: prod.splits option.splits)

lemma snapshot_load [simp]: "hs_load_1m (build_snapshot now r) = cl_load_1m (get_cpu_load r)"
  and snapshot_cpu [simp]: "hs_cpu_used_pct (build_snapshot now r) = dsub (Fin 100) (cs_idle_pct (get_cpu_stat r))"
  and snapshot_mem [simp]: "hs_mem_used_pct (build_snapshot now r) = mi_used_pct (get_mem r)"
  by (simp_all add: build_snapshot_def Let_def process_counts flow_counts split: prod.splits option.splits)

lemma snapshot_counts:
  "m_observe_batch r = Some b \<Longrightarrow>
     hs_proc_exec_count (build_snapshot now r) =
       of_nat (length (filter (\<lambda>p. pe_event p = ''exec'') (ob_process_events b)))"
  "m_observe_batch r = Some b \<Longrightarrow>
     hs_proc_exit_count (build_snapshot now r) =
       of_nat (length (filter (\<lambda>p. pe_event p \<noteq> ''exec'') (ob_process_events b)))"
  "m_observe_batch r = Some b \<Longrightarrow>
     hs_tcp_flow_count (build_snapshot now r) = of_nat (length (ob_flow_events b))"
  "m_observe_batch r = Some b \<Longrightarrow>
     hs_tcp_bytes_sent (build_snapshot now r) = sum_list (map fe_bytes_sent (ob_flow_events b))"
  "m_observe_batch r = Some b \<Longrightarrow>
     hs_tcp_bytes_recv (build_snapshot now r) = sum_list (map fe_bytes_recv (ob_flow_events b))"
  by (simp_all add: build_snapshot_def Let_def process_counts flow_counts HostSnapshot_default_def
      split: prod.splits)

lemma snapshot_no_batch:
  "m_observe_batch r = None \<Longrightarrow> hs_tcp_flow_count (build_snapshot now r) = 0"
  "m_observe_batch r = None \<Longrightarrow> hs_tcp_bytes_sent (build_snapshot now r) = 0"
  "m_observe_batch r = None \<Longrightarrow> hs_tcp_bytes_recv (build_snapshot now r) = 0"
  by (simp_all add: build_snapshot_def Let_def HostSnapshot_default_def split: prod.splits)

lemma Get_after_report:
  "Get h (mgr_step (Report now r) hosts) =
     (if h = m_hostname r then updated_entry h (build_snapshot now r) hosts else Get h hosts)"
  by (simp add: SetMonitorInfo_def Get_Update)

section \<open>Invariants of the manager process\<close>

lemma hosts_ok_step [wf_intros]: "hosts_ok hosts \<Longrightarrow> hosts_ok (mgr_step ev hosts)"
  by (cases ev) (auto simp: SetMonitorInfo_def intro: wf_intros)

lemma hosts_ok_run: "hosts_ok hosts \<Longrightarrow> hosts_ok (mgr_run evs hosts)"
  by (induction evs arbitrary: hosts) (auto simp: mgr_run_def intro: wf_intros)

lemma reachable_hosts_ok: "mgr_reachable hosts \<Longrightarrow> hosts_ok hosts"
  by (induction rule: mgr_reachable.induct) (auto intro: wf_intros)

lemma mgr_run_reachable: "mgr_reachable hosts \<Longrightarrow> mgr_reachable (mgr_run evs hosts)"
  by (induction evs arbitrary: hosts) (auto simp: mgr_run_def intro: mgr_reachable.intros)

text \<open>
  The abstract view of one host: the list of all events it ever reported, as long as no tick
  finds it silent for more than 60 seconds.
\<close>

fun reported :: "string \<Rightarrow> mgr_event list \<Rightarrow> DiagnoseRecord list" where
  "reported h [] = []"
| "reported h (Report now r # evs) =
     (if m_hostname r = h then map diagnose_record (m_diagnose_events r) else []) @ reported h evs"
| "reported h (Tick now # evs) = reported h evs"

text \<open>Every tick comes at most 60 seconds after the host's last report (\<open>t\<close> is its time).\<close>

fun always_fresh :: "string \<Rightarrow> int \<Rightarrow> mgr_event list \<Rightarrow> bool" where
  "always_fresh h t [] = True"
| "always_fresh h t (Report now r # evs) = always_fresh h (if m_hostname r = h then now else t) evs"
| "always_fresh h t (Tick now # evs) = (now - t \<le> 60 \<and> always_fresh h t evs)"

lemma log_is_recent_history:
  assumes "hosts_ok hosts" and "always_fresh h (hs_last_update (Get h hosts)) evs"
  shows "hs_diagnose_events (Get h (mgr_run evs hosts)) =
    last_n 20 (hs_diagnose_events (Get h hosts) @ reported h evs)"
  using assms
proof (induction evs arbitrary: hosts)
  case Nil
  then show ?case by (simp add: mgr_run_def Get_log_bounded)
next
  case (Cons ev evs)
  have ok: "hosts_ok (mgr_step ev hosts)" using Cons.prems(1) by (rule hosts_ok_step)
  show ?case
  proof (cases ev)
    case (Report now r)
    have "always_fresh h (hs_last_update (Get h (mgr_step ev hosts))) evs"
      using Cons.prems(2)
      by (auto simp: Report Get_after_report updated_entry_def simp del: mgr_step.simps split: if_splits)
    from Cons.IH [OF ok this]
    have "hs_diagnose_events (Get h (mgr_run (ev # evs) hosts)) =
        last_n 20 (hs_diagnose_events (Get h (mgr_step ev hosts)) @ reported h evs)"
      by (simp add: mgr_run_def)
    also have "hs_diagnose_events (Get h (mgr_step ev hosts)) = last_n 20 (hs_diagnose_events (Get h hosts) @
        (if m_hostname r = h then map diagnose_record (m_diagnose_events r) else []))"
      using hm.log_update_any [OF Cons.prems(1), of h "m_hostname r" "build_snapshot now r"]
      by (simp add: Report SetMonitorInfo_def)
    finally show ?thesis by (simp add: Report last_n_append_absorb)
  next
    case (Tick now)
    with Cons.prems have "Get h (mgr_step ev hosts) = Get h hosts"
      by (simp add: hm.expire_keeps_fresh)
    with Cons.IH [OF ok] Cons.prems(2) show ?thesis by (simp add: mgr_run_def Tick)
  qed
qed

lemma dsub_exact: "is_double (Fin (a - b)) \<Longrightarrow> dsub (Fin a) (Fin b) = Fin (a - b)"
  by (simp add: dsub_def rnd_is_double)

text \<open>\<open>100 - (100 - i)\<close> is exact on the upper half of the percentages.\<close>

lemma double_complement:
  assumes "is_double (Fin i)" and "50 \<le> i" and "i \<le> 100"
  shows "dsub (Fin 100) (dsub (Fin 100) (Fin i)) = Fin i"
proof -
  have "representable 100" using representable_of_int [of 100] by simp
  then have "representable (100 - i)"
    using assms by (intro sterbenz) (auto simp: is_double.simps)
  moreover have "\<not> max_exceeded (100 - i)"
    using assms by (intro small_below_max [of 100]) auto
  ultimately have "dsub (Fin 100) (Fin i) = Fin (100 - i)"
    by (intro dsub_exact) (simp add: is_double.simps)
  with assms(1) show ?thesis by (simp add: dsub_exact)
qed

text \<open>Below 50 the first subtraction rounds, by at most half a unit in the last place of 100, and the second is exact.\<close>

lemma complement_error:
  assumes "is_double (Fin i)" and "0 \<le> i" and "i \<le> 100"
  shows "\<exists>i'. dsub (Fin 100) (dsub (Fin 100) (Fin i)) = Fin i' \<and> \<bar>i' - i\<bar> \<le> 1 / 2 ^ 47 \<and> (50 \<le> i \<longrightarrow> i' = i)"
proof (cases "50 \<le> i")
  case True
  with double_complement assms show ?thesis by simp
next
  case False
  define c where "c = round_rat (100 - i)"
  have rep: "representable 50" "representable 100" using representable_of_int [of 50] representable_of_int [of 100] by simp_all
  then have c: "50 \<le> c" "c \<le> 100"
    using False assms by (auto simp: c_def intro: round_rat_ge round_rat_le)
  have "ilog 2 (100 - i) < 7" using False assms by (subst ilog_less_iff) simp_all
  then have "ulp_exp (100 - i) \<le> -46" using False by (simp add: ulp_exp_def)
  then have "(2::rat) powi ulp_exp (100 - i) \<le> 2 powi (-46)" by (intro power_int_increasing) simp_all
  with round_rat_error [of "100 - i"] have err: "\<bar>c - (100 - i)\<bar> \<le> 1 / 2 ^ 47" by (simp add: c_def power_int_minus)
  have "\<not> max_exceeded c" using c by (intro small_below_max [of 100]) auto
  then have "dsub (Fin 100) (Fin i) = Fin c" by (simp add: dsub_def rnd_def c_def [symmetric] Let_def)
  moreover have "representable (100 - c)"
    using rep(2) representable_round_rat [of "100 - i"] c by (intro sterbenz) (simp_all add: c_def [symmetric])
  then have "dsub (Fin 100) (Fin c) = Fin (100 - c)"
    using c by (intro dsub_exact) (simp add: is_double.simps small_below_max [of 100])
  moreover have "\<bar>100 - c - i\<bar> = \<bar>c - (100 - i)\<bar>" by (subst abs_minus_cancel [symmetric]) (simp add: algebra_simps)
  ultimately show ?thesis using err False by simp
qed

section \<open>Properties\<close>

text \<open>A report used to exercise the properties.\<close>

definition demo_report :: "string \<Rightarrow> MonitorInfo" where
  "demo_report h = MonitorInfo_default\<lparr>m_hostname := h,
     m_cpu_load := Some (CpuLoad_default\<lparr>cl_load_1m := Fin 10\<rparr>),
     m_cpu_stat := Some (CpuStat_default\<lparr>cs_idle_pct := Fin 75\<rparr>),
     m_diagnose_events := [\<lparr>de_type = ''perf'', de_process_name = ''yes'', de_thread_name = [],
       de_file_path = ''/tmp/x.data'', de_timestamp = 5, de_cpu_percent = Fin 99\<rparr>]\<rparr>"

text \<open>
  C1: in every state the manager can reach, by any interleaving of reports and expiry passes,
  each host has exactly one entry, stored under its own name, with at most 20 diagnose events
  and a health score between 0 and 100.
\<close>

theorem manager_store_invariant:
  assumes "mgr_reachable hosts"
  shows "distinct (map fst hosts) \<and>
    (\<forall>(h, v) \<in> set hosts. hs_hostname v = h \<and> length (hs_diagnose_events v) \<le> 20 \<and>
       (\<exists>r. hs_health_score v = Fin r \<and> 0 \<le> r \<and> r \<le> 100))"
  using reachable_hosts_ok [OF assms]
  by (fastforce simp: hosts_ok_def list_all_iff entry_ok_def elim!: dle_between_Fin)

theorem manager_store_invariant_witness:
  "mgr_reachable (mgr_step (Report 5 (demo_report ''a'')) []) \<and>
   distinct (map fst (mgr_step (Report 5 (demo_report ''a'')) []))"
proof -
  have r: "mgr_reachable (mgr_step (Report 5 (demo_report ''a'')) [])"
    by (intro mgr_reachable.intros)
  with manager_store_invariant [OF r] show ?thesis by blast
qed

text \<open>
  C2: the diagnose events the manager holds for a host are the last 20 of everything the host
  has reported, in order, across any interleaving with other hosts' reports and with expiry
  passes, provided no expiry pass finds the host silent for more than 60 seconds.
\<close>

theorem diagnose_log_refines_history:
  assumes "hosts_ok hosts" and "always_fresh h (hs_last_update (Get h hosts)) evs"
  shows "hs_diagnose_events (Get h (mgr_run evs hosts)) =
    last_n 20 (hs_diagnose_events (Get h hosts) @ reported h evs)"
  using assms by (rule log_is_recent_history)

theorem diagnose_log_refines_history_witness:
  "length (hs_diagnose_events (Get ''a'' (mgr_run
     [Report 5 (demo_report ''a''), Tick 20, Report 21 (demo_report ''b''), Report 30 (demo_report ''a''), Tick 90] []))) = 2"
proof -
  have f: "always_fresh ''a'' (hs_last_update (Get ''a'' []))
     [Report 5 (demo_report ''a''), Tick 20, Report 21 (demo_report ''b''), Report 30 (demo_report ''a''), Tick 90]"
    by (simp add: demo_report_def Get_def)
  from diagnose_log_refines_history [OF hosts_ok_empty f] show ?thesis
    by (simp add: demo_report_def Get_def)
qed

text \<open>
  C12: a report is visible to the next query for its host: the load and the memory percentage come
  back unchanged, with the manager's time of receipt. The idle percentage is stored as \<open>100.0 - idle\<close>
  and subtracted again: for a double between 0 and 100 it comes back within \<open>2 ^ -47\<close>, and
  unchanged whenever it is at least 50.
\<close>

theorem set_then_get_roundtrip:
  "let m = GetMonitorInfo (m_hostname r) (fst (SetMonitorInfo now r hosts)) in
    cl_load_1m (get_cpu_load m) = cl_load_1m (get_cpu_load r) \<and>
    mi_used_pct (get_mem m) = mi_used_pct (get_mem r) \<and>
    m_hostname m = m_hostname r \<and> m_timestamp m = now \<and>
    (\<forall>i. cs_idle_pct (get_cpu_stat r) = Fin i \<longrightarrow> is_double (Fin i) \<longrightarrow> 0 \<le> i \<longrightarrow> i \<le> 100 \<longrightarrow>
       (\<exists>i'. cs_idle_pct (get_cpu_stat m) = Fin i' \<and> \<bar>i' - i\<bar> \<le> 1 / 2 ^ 47 \<and> (50 \<le> i \<longrightarrow> i' = i)))"
proof -
  let ?m = "GetMonitorInfo (m_hostname r) (fst (SetMonitorInfo now r hosts))"
  have "cs_idle_pct (get_cpu_stat ?m) = dsub (Fin 100) (dsub (Fin 100) (cs_idle_pct (get_cpu_stat r)))"
    by (simp add: GetMonitorInfo_def SetMonitorInfo_def Get_Update updated_entry_def Let_def get_cpu_stat_def)
  then have "\<exists>i'. cs_idle_pct (get_cpu_stat ?m) = Fin i' \<and> \<bar>i' - i\<bar> \<le> 1 / 2 ^ 47 \<and> (50 \<le> i \<longrightarrow> i' = i)"
    if "cs_idle_pct (get_cpu_stat r) = Fin i" "is_double (Fin i)" "0 \<le> i" "i \<le> 100" for i
    using complement_error [OF that(2-4)] that(1) by simp
  moreover have "cl_load_1m (get_cpu_load ?m) = cl_load_1m (get_cpu_load r)" "mi_used_pct (get_mem ?m) = mi_used_pct (get_mem r)"
    "m_hostname ?m = m_hostname r" "m_timestamp ?m = now"
    by (simp_all add: GetMonitorInfo_def SetMonitorInfo_def Get_Update updated_entry_def Let_def get_cpu_load_def get_mem_def)
  ultimately show ?thesis unfolding Let_def by blast
qed

theorem set_then_get_roundtrip_witness:
  "cs_idle_pct (get_cpu_stat (GetMonitorInfo ''a'' (fst (SetMonitorInfo 5 (demo_report ''a'') [])))) = Fin 75 \<and>
   cl_load_1m (get_cpu_load (GetMonitorInfo ''a'' (fst (SetMonitorInfo 5 (demo_report ''a'') [])))) = Fin 10"
  using set_then_get_roundtrip [of "demo_report ''a''" 5 "[]"]
  by (simp add: demo_report_def get_cpu_stat_def get_cpu_load_def Let_def)

text \<open>
  C13: the observe counters of a snapshot count the current report only: exec plus exit events
  are exactly its process events, and the byte totals are the sums over its flow events modulo
  \<open>2 ^ 64\<close>. Whatever earlier reports of the host counted is gone.
\<close>

theorem observe_counters_per_report:
  assumes "m_observe_batch r = Some b"
  shows "let v = Get (m_hostname r) (fst (SetMonitorInfo now r hosts)) in
    hs_proc_exec_count v + hs_proc_exit_count v = of_nat (length (ob_process_events b)) \<and>
    hs_proc_exec_count v = of_nat (length (filter (\<lambda>p. pe_event p = ''exec'') (ob_process_events b))) \<and>
    hs_tcp_flow_count v = of_nat (length (ob_flow_events b)) \<and>
    hs_tcp_bytes_sent v = sum_list (map fe_bytes_sent (ob_flow_events b)) \<and>
    hs_tcp_bytes_recv v = sum_list (map fe_bytes_recv (ob_flow_events b))"
proof -
  have "length (filter (\<lambda>p. pe_event p = ''exec'') xs) + length (filter (\<lambda>p. pe_event p \<noteq> ''exec'') xs) = length xs"
    for xs :: "ProcessEvent list"
    by (rule sum_length_filter_compl)
  then show ?thesis
    using snapshot_counts [OF assms, of now]
    by (simp add: SetMonitorInfo_def Get_Update updated_entry_def Let_def flip: of_nat_add)
qed

theorem observe_counters_per_report_witness:
  "hs_tcp_flow_count (Get ''a'' (fst (SetMonitorInfo 5
     ((demo_report ''a'')\<lparr>m_observe_batch := Some \<lparr>ob_process_events = [], ob_flow_events = []\<rparr>\<rparr>) []))) = 0"
  using observe_counters_per_report [of "(demo_report ''a'')\<lparr>m_observe_batch := Some \<lparr>ob_process_events = [], ob_flow_events = []\<rparr>\<rparr>"
      "\<lparr>ob_process_events = [], ob_flow_events = []\<rparr>" 5 "[]"]
  by (simp add: demo_report_def Let_def)

end
