(* ===== verification/Iostream.thy ===== *)
theory Iostream
  imports Double
begin

text \<open>
  The text input and output of the C++ standard library that the sources use, as libstdc++
  implements it in the classic locale: \<open>std::istringstream\<close> with formatted extraction of
  unsigned, signed and floating-point numbers and of words, \<open>std::getline\<close> loops,
  \<open>std::stoull\<close> and \<open>std::stoi\<close>, and the default formatting of a \<open>double\<close> by an output
  stream. Extraction keeps the stream's error state: once an extraction fails every later
  one fails too and leaves its target alone, while a failed conversion itself stores zero.
\<close>

section \<open>Input streams\<close>

record istream =
  is_rest :: string
  is_eof :: bool
  is_fail :: bool

definition istringstream :: "string \<Rightarrow> istream" where
  "istringstream s = \<lparr>is_rest = s, is_eof = False, is_fail = False\<rparr>"

definition is_space :: "char \<Rightarrow> bool" where
  "is_space c \<longleftrightarrow> of_char c = (32::int) \<or> (9 \<le> (of_char c :: int) \<and> (of_char c :: int) \<le> 13)"

abbreviation newline :: char where
  "newline \<equiv> CHR 0x0A"

text \<open>
  The sentry of formatted input: it refuses a stream that is not good, skips white space, and
  fails at the end of the input.
\<close>

definition sentry :: "istream \<Rightarrow> bool \<times> istream" where
  "sentry st =
     (if is_eof st \<or> is_fail st then (False, st\<lparr>is_fail := True\<rparr>)
      else let r = dropWhile is_space (is_rest st)
           in if r = [] then (False, \<lparr>is_rest = [], is_eof = True, is_fail = True\<rparr>)
              else (True, st\<lparr>is_rest := r\<rparr>))"

text \<open>An optional sign: whether it is a minus, and what follows.\<close>

definition scan_sign :: "string \<Rightarrow> bool \<times> string" where
  "scan_sign s = (case s of
       [] \<Rightarrow> (False, [])
     | c # cs \<Rightarrow> if c = CHR ''-'' then (True, cs) else if c = CHR ''+'' then (False, cs) else (False, s))"

text \<open>
  \<open>operator>>(uint64_t&)\<close>: the second argument is the target's old value. A minus sign
  negates modulo \<open>2 ^ 64\<close>; an overflow stores the maximum and fails.
\<close>

definition read_u64 :: "istream \<Rightarrow> u64 \<Rightarrow> u64 \<times> istream" where
  "read_u64 st old = (case sentry st of
       (False, st') \<Rightarrow> (old, st')
     | (True, st') \<Rightarrow>
         let (neg, s) = scan_sign (is_rest st');
             ds = takeWhile is_digit s; r = dropWhile is_digit s; n = digits_val ds;
             st'' = st'\<lparr>is_rest := r, is_eof := (r = [])\<rparr>
         in if ds = [] then (0, st''\<lparr>is_fail := True\<rparr>)
            else if 2 ^ 64 \<le> n then (- 1, st''\<lparr>is_fail := True\<rparr>)
            else ((if neg then - of_int n else of_int n), st''))"

text \<open>\<open>operator>>(int&)\<close>: the value is clamped to the range of \<open>int\<close>, which fails.\<close>

definition read_i32 :: "istream \<Rightarrow> int \<Rightarrow> int \<times> istream" where
  "read_i32 st old = (case sentry st of
       (False, st') \<Rightarrow> (old, st')
     | (True, st') \<Rightarrow>
         let (neg, s) = scan_sign (is_rest st');
             ds = takeWhile is_digit s; r = dropWhile is_digit s;
             v = (if neg then - digits_val ds else digits_val ds);
             st'' = st'\<lparr>is_rest := r, is_eof := (r = [])\<rparr>
         in if ds = [] then (0, st''\<lparr>is_fail := True\<rparr>)
            else if v < - (2 ^ 31) then (- (2 ^ 31), st''\<lparr>is_fail := True\<rparr>)
            else if 2 ^ 31 - 1 < v then (2 ^ 31 - 1, st''\<lparr>is_fail := True\<rparr>)
            else (v, st''))"

text \<open>\<open>operator>>(std::string&)\<close>: a word up to white space.\<close>

definition read_word :: "istream \<Rightarrow> string \<Rightarrow> string \<times> istream" where
  "read_word st old = (case sentry st of
       (False, st') \<Rightarrow> (old, st')
     | (True, st') \<Rightarrow>
         let w = takeWhile (\<lambda>c. \<not> is_space c) (is_rest st');
             r = dropWhile (\<lambda>c. \<not> is_space c) (is_rest st')
         in (w, st'\<lparr>is_rest := r, is_eof := (r = [])\<rparr>))"

text \<open>\<open>>> std::ws\<close>: skip white space; at the end of the input only \<open>eofbit\<close> is set.\<close>

definition skip_ws :: "istream \<Rightarrow> istream" where
  "skip_ws st =
     (if is_eof st \<or> is_fail st then st\<lparr>is_fail := True\<rparr>
      else let r = dropWhile is_space (is_rest st) in st\<lparr>is_rest := r, is_eof := (r = [])\<rparr>)"

text \<open>
  \<open>operator>>(double&)\<close>: digits with at most one point and an optional exponent; a missing
  mantissa or exponent fails with zero, an overflow fails with the largest finite value.
\<close>

definition scan_decimal :: "string \<Rightarrow> rat option \<times> string" where
  "scan_decimal s =
     (let (neg, s1) = scan_sign s;
          ip = takeWhile is_digit s1; s2 = dropWhile is_digit s1;
          (fp, s3) = (case s2 of
             CHR ''.'' # t \<Rightarrow> (takeWhile is_digit t, dropWhile is_digit t) | _ \<Rightarrow> ([], s2));
          mant = ip @ fp;
          (ex, s4) = (case s3 of
             c # t \<Rightarrow> (if mant \<noteq> [] \<and> (c = CHR ''e'' \<or> c = CHR ''E'')
                       then let (eneg, t1) = scan_sign t; ed = takeWhile is_digit t1
                            in ((if ed = [] then None
                                 else Some (if eneg then - digits_val ed else digits_val ed)),
                                dropWhile is_digit t1)
                       else (Some 0, s3))
           | [] \<Rightarrow> (Some 0, s3));
          sg = (if neg then -1 else 1)
      in ((if mant = [] then None
           else map_option (\<lambda>e. sg * of_int (digits_val mant) * 10 powi (e - int (length fp))) ex), s4))"

definition max_double :: rat where
  "max_double = (2 ^ 53 - 1) * 2 ^ 971"

definition read_double :: "istream \<Rightarrow> double \<Rightarrow> double \<times> istream" where
  "read_double st old = (case sentry st of
       (False, st') \<Rightarrow> (old, st')
     | (True, st') \<Rightarrow>
         let (v, r) = scan_decimal (is_rest st');
             st'' = st'\<lparr>is_rest := r, is_eof := (r = [])\<rparr>
         in case v of
              None \<Rightarrow> (Fin 0, st''\<lparr>is_fail := True\<rparr>)
            | Some x \<Rightarrow> (case rnd x of
                  PInf \<Rightarrow> (Fin max_double, st''\<lparr>is_fail := True\<rparr>)
                | NInf \<Rightarrow> (Fin (- max_double), st''\<lparr>is_fail := True\<rparr>)
                | d \<Rightarrow> (d, st'')))"

section \<open>Lines\<close>

text \<open>The lines a \<open>while (std::getline(in, line))\<close> loop sees.\<close>

function getlines :: "string \<Rightarrow> string list" where
  "getlines s =
     (if s = [] then []
      else takeWhile (\<lambda>c. c \<noteq> newline) s #
           (case dropWhile (\<lambda>c. c \<noteq> newline) s of [] \<Rightarrow> [] | _ # r \<Rightarrow> getlines r))"
  by pat_completeness auto
termination
proof (relation "measure length", goal_cases)
  case (2 s x r)
  then show ?case
    by (metis dropWhile_eq_Nil_conv impossible_Cons in_measure length_dropWhile_le not_less order_trans)
qed simp

declare getlines.simps [simp del]

section \<open>Conversions of std::string\<close>

definition stoull :: "string \<Rightarrow> u64 res" where
  "stoull s =
     (let (neg, s1) = scan_sign (dropWhile is_space s);
          ds = takeWhile is_digit s1; n = digits_val ds
      in if ds = [] then Inl InvalidArgument
         else if 2 ^ 64 \<le> n then Inl OutOfRange
         else Inr (if neg then - of_int n else of_int n))"

definition stoi :: "string \<Rightarrow> int res" where
  "stoi s =
     (let (neg, s1) = scan_sign (dropWhile is_space s);
          ds = takeWhile is_digit s1; v = (if neg then - digits_val ds else digits_val ds)
      in if ds = [] then Inl InvalidArgument
         else if v < - (2 ^ 31) \<or> 2 ^ 31 - 1 < v then Inl OutOfRange
         else Inr v)"

section \<open>Output of a double\<close>

text \<open>
  \<open>os << d\<close> with the default precision 6 is the conversion \<open>%g\<close>: six significant digits,
  rounded from the exact value, with trailing zeros removed; fixed notation for decimal
  exponents from -4 to 5 and scientific notation otherwise.
\<close>

definition six_digits :: "rat \<Rightarrow> int \<times> int" where
  "six_digits x =
     (let k = ilog 10 x; m = round_even (x / 10 powi (k - 5))
      in if m = 1000000 then (k + 1, 100000) else (k, m))"

definition strip_zeros :: "string \<Rightarrow> string" where
  "strip_zeros s = rev (dropWhile (\<lambda>c. c = CHR ''0'') (rev s))"

definition with_fraction :: "string \<Rightarrow> string \<Rightarrow> string" where
  "with_fraction ip fp =
     (let f = strip_zeros fp in if f = [] then ip else ip @ CHR ''.'' # f)"

definition show_exponent :: "int \<Rightarrow> string" where
  "show_exponent k =
     CHR ''e'' # (if k < 0 then CHR ''-'' else CHR ''+'') #
     (let ds = show_dec \<bar>k\<bar> in if length ds < 2 then CHR ''0'' # ds else ds)"

definition show_pos :: "rat \<Rightarrow> string" where
  "show_pos x =
     (let (k, m) = six_digits x; ds = show_dec m
      in if k < -4 \<or> 6 \<le> k then with_fraction (take 1 ds) (drop 1 ds) @ show_exponent k
         else if 0 \<le> k then with_fraction (take (nat k + 1) ds) (drop (nat k + 1) ds)
         else with_fraction ''0'' (replicate (nat (- k - 1)) CHR ''0'' @ ds))"

fun show_double :: "double \<Rightarrow> string" where
  "show_double (Fin r) =
     (if r = 0 then ''0'' else if r < 0 then CHR ''-'' # show_pos (- r) else show_pos r)"
| "show_double PInf = ''inf''"
| "show_double NInf = ''-inf''"
| "show_double NaN = ''nan''"

section \<open>Reading back what was printed\<close>

lemma is_digit_not_space: "is_digit c \<Longrightarrow> \<not> is_space c"
  by (auto simp: is_digit_def is_space_def)

lemma is_digit_not_sign: "is_digit c \<Longrightarrow> c \<noteq> CHR ''-'' \<and> c \<noteq> CHR ''+''"
  by (auto simp: is_digit_def)

definition no_digit_ahead :: "string \<Rightarrow> bool" where
  "no_digit_ahead r \<longleftrightarrow> (case r of [] \<Rightarrow> True | c # _ \<Rightarrow> \<not> is_digit c)"

lemma no_digit_ahead_simps [simp]:
  "no_digit_ahead []" "no_digit_ahead (c # r) \<longleftrightarrow> \<not> is_digit c"
  by (simp_all add: no_digit_ahead_def)

lemma show_dec_hd: "0 \<le> n \<Longrightarrow> \<exists>c cs. show_dec n = c # cs \<and> is_digit c"
  using show_dec_digits [of n] by (cases "show_dec n") auto

lemma scan_show_dec:
  assumes "0 \<le> n" and "no_digit_ahead r"
  shows "scan_sign (show_dec n @ r) = (False, show_dec n @ r)"
    and "takeWhile is_digit (show_dec n @ r) = show_dec n"
    and "dropWhile is_digit (show_dec n @ r) = r"
    and "dropWhile is_space (show_dec n @ r) = show_dec n @ r"
proof -
  have all: "\<forall>c \<in> set (show_dec n). is_digit c"
    using show_dec_digits [OF assms(1)] by (simp add: list_all_iff)
  obtain c cs where c: "show_dec n = c # cs" "is_digit c" using show_dec_hd [OF assms(1)] by blast
  show "scan_sign (show_dec n @ r) = (False, show_dec n @ r)"
    using c is_digit_not_sign [OF c(2)] by (simp add: scan_sign_def)
  show "dropWhile is_space (show_dec n @ r) = show_dec n @ r"
    using c is_digit_not_space [OF c(2)] by simp
  have r: "takeWhile is_digit r = []" "dropWhile is_digit r = r"
    using assms(2) by (cases r; simp)+
  show "takeWhile is_digit (show_dec n @ r) = show_dec n"
    using all r by (simp add: takeWhile_append2)
  show "dropWhile is_digit (show_dec n @ r) = r"
    using all r by (simp add: dropWhile_append2)
qed

lemma sentry_show_dec:
  assumes "list_all is_space ws" and "0 \<le> n" and "no_digit_ahead r"
  shows "sentry \<lparr>is_rest = ws @ show_dec n @ r, is_eof = False, is_fail = False\<rparr> =
    (True, \<lparr>is_rest = show_dec n @ r, is_eof = False, is_fail = False\<rparr>)"
  using assms scan_show_dec(4) [OF assms(2,3)]
  by (simp add: sentry_def Let_def dropWhile_append2 list_all_iff)

lemma read_u64_show:
  assumes "list_all is_space ws" and "0 \<le> n" and "n < 2 ^ 64" and "no_digit_ahead r"
  shows "read_u64 \<lparr>is_rest = ws @ show_dec n @ r, is_eof = False, is_fail = False\<rparr> old =
    (of_int n, \<lparr>is_rest = r, is_eof = (r = []), is_fail = False\<rparr>)"
  using assms by (simp add: read_u64_def sentry_show_dec scan_show_dec del: dropWhile_eq_Nil_conv)

lemma stoull_show:
  assumes "list_all is_space ws" and "0 \<le> n" and "n < 2 ^ 64" and "no_digit_ahead r"
  shows "stoull (ws @ show_dec n @ r) = Inr (of_int n)"
  using assms scan_show_dec [OF assms(2,4)]
  by (simp add: stoull_def Let_def dropWhile_append2 list_all_iff)

text \<open>Extraction from a stream that is not good changes nothing but the fail bit.\<close>

lemma read_after_fail [simp]:
  "is_fail st \<Longrightarrow> fst (read_u64 st v) = v \<and> is_fail (snd (read_u64 st v))"
  "is_fail st \<Longrightarrow> fst (read_word st w) = w \<and> is_fail (snd (read_word st w))"
  by (simp_all add: read_u64_def read_word_def sentry_def)

text \<open>\<open>getline\<close> recovers exactly the lines that were written.\<close>

definition unlines :: "string list \<Rightarrow> string" where
  "unlines ls = concat (map (\<lambda>l. l @ [newline]) ls)"

lemma getlines_line: "newline \<notin> set l \<Longrightarrow> getlines (l @ newline # r) = l # getlines r"
proof -
  assume "newline \<notin> set l"
  then have "takeWhile (\<lambda>c. c \<noteq> newline) (l @ newline # r) = l"
    and "dropWhile (\<lambda>c. c \<noteq> newline) (l @ newline # r) = newline # r"
    by (simp_all add: takeWhile_append dropWhile_append in_set_conv_nth) (metis nth_mem)+
  then show ?thesis by (subst getlines.simps) simp
qed

lemma getlines_Nil [simp]: "getlines [] = []"
  by (simp add: getlines.simps)

lemma getlines_unlines:
  "list_all (\<lambda>l. newline \<notin> set l) ls \<Longrightarrow> getlines (unlines ls) = ls"
  by (induction ls) (simp_all add: unlines_def getlines_line)

lemma getlines_no_newline: "l \<in> set (getlines s) \<Longrightarrow> newline \<notin> set l"
proof (induction s rule: getlines.induct)
  case (1 s)
  show ?case
  proof (cases "s = []")
    case False
    with "1.prems" have "l = takeWhile (\<lambda>c. c \<noteq> newline) s \<or>
      (\<exists>c r. dropWhile (\<lambda>c. c \<noteq> newline) s = c # r \<and> l \<in> set (getlines r))"
      by (subst (asm) getlines.simps, cases "dropWhile (\<lambda>c. c \<noteq> newline) s")
         (simp_all del: dropWhile_eq_Nil_conv)
    with False "1.IH" show ?thesis by (auto dest: set_takeWhileD)
  qed (use "1.prems" in simp)
qed

lemma getlines_unlines_append:
  "list_all (\<lambda>l. newline \<notin> set l) ls \<Longrightarrow> getlines (unlines ls @ r) = ls @ getlines r"
  by (induction ls) (simp_all add: unlines_def getlines_line)

lemma unlines_append: "unlines (xs @ ys) = unlines xs @ unlines ys"
  by (simp add: unlines_def)

lemma unlines_concat: "unlines (concat lss) = concat (map unlines lss)"
  by (induction lss) (simp_all add: unlines_append unlines_def)

section \<open>Printed numbers contain no line break\<close>

lemma newline_not_digit: "is_digit c \<Longrightarrow> c \<noteq> newline"
  by (auto simp: is_digit_def)

lemma newline_show_dec [simp]: "0 \<le> n \<Longrightarrow> newline \<notin> set (show_dec n)"
  using show_dec_digits [of n] newline_not_digit by (auto simp: list_all_iff)

lemma newline_show_nat [simp]: "newline \<notin> set (show_nat n)"
  by (simp add: show_nat_def)

lemma newline_show_int [simp]: "newline \<notin> set (show_int i)"
  by (simp add: show_int_def)

lemma newline_with_fraction:
  "newline \<notin> set ip \<Longrightarrow> newline \<notin> set fp \<Longrightarrow> newline \<notin> set (with_fraction ip fp)"
  unfolding with_fraction_def strip_zeros_def Let_def
  by (auto dest!: set_dropWhileD)

lemma newline_show_exponent: "newline \<notin> set (show_exponent k)"
  by (simp add: show_exponent_def Let_def)

lemma six_digits_nonneg: "0 < x \<Longrightarrow> 0 \<le> snd (six_digits x)"
  using round_even_ge [of 0] by (auto simp: six_digits_def Let_def zero_le_power_int)

lemma newline_show_pos:
  assumes "0 < x"
  shows "newline \<notin> set (show_pos x)"
proof -
  obtain k m where km: "six_digits x = (k, m)" by fastforce
  with six_digits_nonneg [OF assms] have m: "newline \<notin> set (show_dec m)" by simp
  then have "newline \<notin> set (with_fraction (take j (show_dec m)) (drop j (show_dec m)))"
    and "newline \<notin> set (with_fraction ''0'' (replicate j CHR ''0'' @ show_dec m))" for j
    by (intro newline_with_fraction; auto dest: in_set_takeD in_set_dropD)+
  then show ?thesis
    by (simp add: show_pos_def km newline_show_exponent Let_def)
qed

lemma newline_show_double [simp]: "newline \<notin> set (show_double d)"
  by (cases d) (auto simp: newline_show_pos)

section \<open>Reading fields separated by blanks\<close>

lemma read_u64_field:
  assumes "no_digit_ahead r"
  shows "read_u64 \<lparr>is_rest = CHR '' '' # show_dec (uint (w::u64)) @ r, is_eof = False, is_fail = False\<rparr> old =
    (w, \<lparr>is_rest = r, is_eof = (r = []), is_fail = False\<rparr>)"
  using read_u64_show [of "'' ''" "uint w" r old] assms uint_lt2p [of w]
  by (simp add: is_space_def)

lemma read_u64_padded:
  assumes "no_digit_ahead r"
  shows "read_u64 \<lparr>is_rest = replicate n CHR '' '' @ show_dec (uint (w::u64)) @ r, is_eof = False, is_fail = False\<rparr> old =
    (w, \<lparr>is_rest = r, is_eof = (r = []), is_fail = False\<rparr>)"
  using read_u64_show [of "replicate n CHR '' ''" "uint w" r old] assms uint_lt2p [of w]
  by (simp add: is_space_def list_all_iff)

lemma read_i32_show:
  assumes "list_all is_space ws" and "0 \<le> n" and "n < 2 ^ 31" and "no_digit_ahead r"
  shows "read_i32 \<lparr>is_rest = ws @ show_dec n @ r, is_eof = False, is_fail = False\<rparr> old =
    (n, \<lparr>is_rest = r, is_eof = (r = []), is_fail = False\<rparr>)"
  using assms by (simp add: read_i32_def sentry_show_dec scan_show_dec del: dropWhile_eq_Nil_conv)

lemma read_word_ws:
  assumes "list_all is_space ws" and "w \<noteq> []" and "list_all (\<lambda>c. \<not> is_space c) w"
  shows "read_word \<lparr>is_rest = ws @ w @ CHR '' '' # r, is_eof = False, is_fail = False\<rparr> old =
    (w, \<lparr>is_rest = CHR '' '' # r, is_eof = False, is_fail = False\<rparr>)"
proof -
  have sp: "is_space CHR '' ''" by (simp add: is_space_def)
  obtain c cs where w: "w = c # cs" using assms(2) by (cases w) auto
  have "takeWhile (\<lambda>c. \<not> is_space c) (w @ CHR '' '' # r) = w"
    and "dropWhile (\<lambda>c. \<not> is_space c) (w @ CHR '' '' # r) = CHR '' '' # r"
    using assms(3) sp by (simp_all add: takeWhile_append2 dropWhile_append2 list_all_iff)
  moreover have "dropWhile is_space (ws @ w @ CHR '' '' # r) = w @ CHR '' '' # r"
    using assms sp w by (simp add: dropWhile_append2 list_all_iff)
  ultimately show ?thesis
    using w sp by (simp add: read_word_def sentry_def Let_def del: takeWhile.simps dropWhile.simps)
qed

lemma read_word_field:
  assumes "w \<noteq> []" and "list_all (\<lambda>c. \<not> is_space c) w"
  shows "read_word \<lparr>is_rest = CHR '' '' # w @ CHR '' '' # r, is_eof = False, is_fail = False\<rparr> old =
    (w, \<lparr>is_rest = CHR '' '' # r, is_eof = False, is_fail = False\<rparr>)"
  using read_word_ws [of "'' ''" w r old] assms by (simp add: is_space_def)

end
