(* ===== verification/MetricsExporter.thy ===== *)
theory MetricsExporter
  imports HostManager Iostream
begin

text \<open>
  The manager's HTTP side (\<open>src/manager/src/rpc/metrics_exporter.cpp\<close>): the request parser and
  router, the Prometheus text, the event list and the flame graph endpoint. The operating
  system enters as arguments: \<open>stat_size\<close> gives a file's size or None when \<open>stat\<close> fails, and
  \<open>popen\<close> gives the bytes a shell command writes to its standard output or None when the
  command cannot be started. \<open>ord\<close> is the iteration order of the host map.
\<close>

abbreviation NUL :: char where
  "NUL \<equiv> CHR 0x00"

abbreviation crlf :: string where
  "crlf \<equiv> [CHR 0x0D, CHR 0x0A]"

section \<open>Query parameters and file names\<close>

definition parse_param :: "string \<Rightarrow> string \<Rightarrow> string" where
  "parse_param query key =
     (let pre = key @ ''=''
      in case str_find pre query of
           None \<Rightarrow> []
         | Some pos \<Rightarrow>
             (let v = drop (pos + length pre) query
              in case find_char CHR ''&'' v of None \<Rightarrow> v | Some e \<Rightarrow> take e v))"

definition is_safe_filename :: "string \<Rightarrow> bool" where
  "is_safe_filename name =
     (if find_char CHR ''/'' name \<noteq> None then False
      else if str_find ''..'' name \<noteq> None then False
      else if length name < 6 \<or> drop (length name - 5) name \<noteq> ''.data'' then False
      else starts_with ''perf_'' name \<or> starts_with ''offcpu_'' name \<or> starts_with ''profile_'' name)"

section \<open>Running a pipeline\<close>

text \<open>\<open>fgets(buf, 4096, fp)\<close>: up to 4095 bytes, ending after a newline.\<close>

definition fgets :: "string \<Rightarrow> string" where
  "fgets s =
     (let l = takeWhile (\<lambda>c. c \<noteq> newline) s
      in take 4095 (if length l < length s then l @ [newline] else l))"

lemma fgets_nonempty: "s \<noteq> [] \<Longrightarrow> fgets s \<noteq> []"
  by (cases s) (auto simp: fgets_def Let_def)

text \<open>\<open>out += buf\<close> appends a C string, so a chunk counts up to its first NUL byte.\<close>

function fgets_loop :: "string \<Rightarrow> string \<Rightarrow> string" where
  "fgets_loop out s =
     (if s = [] then out
      else fgets_loop (out @ takeWhile (\<lambda>c. c \<noteq> NUL) (fgets s)) (drop (length (fgets s)) s))"
  by pat_completeness auto
termination
  by (relation "measure (\<lambda>(out, s). length s)") (auto simp: fgets_nonempty)

declare fgets_loop.simps [simp del]

definition run_pipeline :: "(string \<Rightarrow> string option) \<Rightarrow> string \<Rightarrow> string" where
  "run_pipeline popen cmd = (case popen cmd of None \<Rightarrow> [] | Some s \<Rightarrow> fgets_loop [] s)"

section \<open>The event list\<close>

definition base_name :: "string \<Rightarrow> string" where
  "base_name path = (case rfind_char CHR ''/'' path of None \<Rightarrow> path | Some i \<Rightarrow> drop (i + 1) path)"

definition event_json :: "HostSnapshot \<Rightarrow> DiagnoseRecord \<Rightarrow> string" where
  \<open>event_json h de =
     ''  {"host":"'' @ hs_hostname h @ ''"'' @
     '',"type":"'' @ dr_type de @ ''"'' @
     '',"process":"'' @ dr_process_name de @ ''"'' @
     '',"file":"'' @ base_name (dr_file_path de) @ ''"'' @
     '',"timestamp":'' @ show_int (dr_timestamp de) @
     '',"cpu_percent":'' @ show_double (dr_cpu_percent de) @ ''}''\<close>

text \<open>The two nested loops; the flag is \<open>first_ev\<close>.\<close>

fun events_of_host :: "HostSnapshot \<Rightarrow> bool \<times> string \<Rightarrow> DiagnoseRecord list \<Rightarrow> bool \<times> string" where
  "events_of_host h acc [] = acc"
| "events_of_host h (first_ev, ss) (de # des) =
     events_of_host h (False, ss @ (if first_ev then [] else '','' @ [newline]) @ event_json h de) des"

fun events_of_hosts :: "bool \<times> string \<Rightarrow> HostSnapshot list \<Rightarrow> bool \<times> string" where
  "events_of_hosts acc [] = acc"
| "events_of_hosts acc (h # hs) = events_of_hosts (events_of_host h acc (hs_diagnose_events h)) hs"

definition api_events :: "(hosts \<Rightarrow> hosts) \<Rightarrow> hosts \<Rightarrow> string" where
  "api_events ord hosts =
     snd (events_of_hosts (True, ''['' @ [newline]) (GetAll ord hosts)) @ [newline] @ '']''"

section \<open>The flame graph\<close>

definition diagnose_dir :: string where
  "diagnose_dir = ''/tmp/monitor_system/diagnose/''"

definition flamegraph_cmd :: "string \<Rightarrow> string" where
  "flamegraph_cmd filename =
     (let path = diagnose_dir @ filename
      in if starts_with ''perf_'' filename
         then ''perf script -i '' @ path @ '' | /opt/FlameGraph/stackcollapse-perf.pl'' @
              '' | /opt/FlameGraph/flamegraph.pl 2>/dev/null''
         else ''/opt/FlameGraph/flamegraph.pl < '' @ path @ '' 2>/dev/null'')"

text \<open>The command the endpoint hands to \<open>popen\<close>, if it hands any: its guards, up to the call.\<close>

definition flamegraph_request :: "(string \<Rightarrow> nat option) \<Rightarrow> string \<Rightarrow> string option" where
  "flamegraph_request stat_size query =
     (let filename = parse_param query ''file''
      in if \<not> is_safe_filename filename then None
         else case stat_size (diagnose_dir @ filename) of
                None \<Rightarrow> None
              | Some sz \<Rightarrow> if sz = 0 then None else Some (flamegraph_cmd filename))"

definition api_flamegraph ::
    "(string \<Rightarrow> nat option) \<Rightarrow> (string \<Rightarrow> string option) \<Rightarrow> string \<Rightarrow> string" where
  "api_flamegraph stat_size popen query =
     (case flamegraph_request stat_size query of
        None \<Rightarrow> []
      | Some cmd \<Rightarrow> run_pipeline popen cmd)"

section \<open>The Prometheus text\<close>

text \<open>A metric is three lines: HELP, TYPE and the sample.\<close>

definition metric :: "string \<Rightarrow> string \<Rightarrow> string \<Rightarrow> string \<Rightarrow> string" where
  \<open>metric name help labels value =
     ''# HELP '' @ name @ '' '' @ help @ [newline] @
     ''# TYPE '' @ name @ '' gauge'' @ [newline] @
     name @ labels @ '' '' @ value @ [newline]\<close>

definition host_label :: "HostSnapshot \<Rightarrow> string" where
  \<open>host_label h = ''host="'' @ hs_hostname h @ ''"''\<close>

definition braces :: "string \<Rightarrow> string" where
  "braces l = ''{'' @ l @ ''}''"

definition event_metric :: "HostSnapshot \<Rightarrow> DiagnoseRecord \<Rightarrow> string" where
  \<open>event_metric h de =
     metric ''monitor_diagnose_event'' ''Diagnose event CPU%% at trigger''
       (braces (host_label h @ '',type="'' @ dr_type de @ ''"'' @
          '',process="'' @ dr_process_name de @ ''"'' @ '',file="'' @ dr_file_path de @ ''"''))
       (show_double (dr_cpu_percent de))\<close>

text \<open>The \<open>int64_t\<close> counters print as signed numbers.\<close>

definition host_metrics :: "HostSnapshot \<Rightarrow> string" where
  "host_metrics h =
     (let label = braces (host_label h)
      in metric ''monitor_host_health_score'' ''Host health score 0-100'' label (show_double (hs_health_score h)) @
         metric ''monitor_cpu_load_1m'' ''CPU load 1-minute average'' label (show_double (hs_load_1m h)) @
         metric ''monitor_cpu_used_pct'' ''CPU usage percentage'' label (show_double (hs_cpu_used_pct h)) @
         metric ''monitor_mem_used_pct'' ''Memory usage percentage'' label (show_double (hs_mem_used_pct h)) @
         metric ''monitor_disk_iops'' ''Disk IOPS'' label (show_double (hs_disk_iops h)) @
         metric ''monitor_net_rx_mbps'' ''Network RX Mbps'' label (show_double (hs_net_rx_mbps h)) @
         metric ''monitor_net_tx_mbps'' ''Network TX Mbps'' label (show_double (hs_net_tx_mbps h)) @
         metric ''monitor_observe_proc_exec'' ''Process exec events (cumulative)'' label (show_int (sint (hs_proc_exec_count h))) @
         metric ''monitor_observe_proc_exit'' ''Process exit events (cumulative)'' label (show_int (sint (hs_proc_exit_count h))) @
         metric ''monitor_observe_tcp_flows'' ''Active TCP flows tracked'' label (show_int (sint (hs_tcp_flow_count h))) @
         metric ''monitor_observe_tcp_bytes_sent'' ''TCP bytes sent (cumulative)'' label (show_int (sint (hs_tcp_bytes_sent h))) @
         metric ''monitor_observe_tcp_bytes_recv'' ''TCP bytes received (cumulative)'' label (show_int (sint (hs_tcp_bytes_recv h))) @
         metric ''monitor_diagnose_event_count'' ''Total diagnose records kept'' label (show_nat (length (hs_diagnose_events h))) @
         concat (map (event_metric h) (hs_diagnose_events h)))"

definition prometheus_metrics :: "(hosts \<Rightarrow> hosts) \<Rightarrow> hosts \<Rightarrow> string" where
  "prometheus_metrics ord hosts =
     (let hs = GetAll ord hosts
      in metric ''monitor_host_count'' ''Number of active hosts'' [] (show_nat (length hs)) @
         concat (map host_metrics hs))"

section \<open>One request of the server loop\<close>

text \<open>
  The 4096-byte buffer: at most 4095 bytes are read, and the string made from it ends at the
  first NUL byte.
\<close>

definition read_request :: "string \<Rightarrow> string" where
  "read_request bytes = takeWhile (\<lambda>c. c \<noteq> NUL) (take 4095 bytes)"

text \<open>The path and the query of the request line.\<close>

definition parse_request :: "string \<Rightarrow> string \<times> string" where
  "parse_request req =
     (let req_line = (case str_find crlf req of Some e \<Rightarrow> take e req | None \<Rightarrow> req);
          full_path = (case (find_char CHR '' '' req_line, rfind_char CHR '' '' req_line) of
              (Some p1, Some p2) \<Rightarrow>
                if p2 > p1 then take (p2 - p1 - 1) (drop (p1 + 1) req_line) else ''/''
            | _ \<Rightarrow> ''/'')
      in case find_char CHR ''?'' full_path of
           Some q \<Rightarrow> (take q full_path, drop (q + 1) full_path)
         | None \<Rightarrow> (full_path, []))"

definition with_length :: "string \<Rightarrow> string \<Rightarrow> string" where
  "with_length headers body =
     headers @ ''Content-Length: '' @ show_nat (length body) @ crlf @ crlf @ body"

definition respond ::
    "(string \<Rightarrow> nat option) \<Rightarrow> (string \<Rightarrow> string option) \<Rightarrow> (hosts \<Rightarrow> hosts) \<Rightarrow> hosts \<Rightarrow>
     string \<times> string \<Rightarrow> string" where
  "respond stat_size popen ord hosts = (\<lambda>(path, query).
     if path = ''/healthz'' then
       ''HTTP/1.1 200 OK'' @ crlf @ ''Content-Type: text/plain'' @ crlf @ crlf @ ''OK''
     else if path = ''/api/events'' then
       with_length (''HTTP/1.1 200 OK'' @ crlf @ ''Content-Type: application/json'' @ crlf @
                    ''Access-Control-Allow-Origin: *'' @ crlf) (api_events ord hosts)
     else if path = ''/api/flamegraph'' then
       (let body = api_flamegraph stat_size popen query
        in if body = [] then
             ''HTTP/1.1 400 Bad Request'' @ crlf @ ''Content-Type: text/plain'' @ crlf @ crlf @
             ''Invalid or missing file parameter''
           else with_length (''HTTP/1.1 200 OK'' @ crlf @ ''Content-Type: image/svg+xml'' @ crlf @
                             ''Access-Control-Allow-Origin: *'' @ crlf) body)
     else with_length (''HTTP/1.1 200 OK'' @ crlf @ ''Content-Type: text/plain; version=0.0.4'' @ crlf)
            (prometheus_metrics ord hosts))"

text \<open>What the loop body writes back for the bytes a client sent.\<close>

definition serve_request ::
    "(string \<Rightarrow> nat option) \<Rightarrow> (string \<Rightarrow> string option) \<Rightarrow> (hosts \<Rightarrow> hosts) \<Rightarrow> hosts \<Rightarrow>
     string \<Rightarrow> string" where
  "serve_request stat_size popen ord hosts bytes =
     respond stat_size popen ord hosts (parse_request (read_request bytes))"

section \<open>The text the exporter writes\<close>

lemma fgets_prefix: "prefix (fgets s) s"
proof (cases "dropWhile (\<lambda>c. c \<noteq> newline) s")
  case Nil
  then have "takeWhile (\<lambda>c. c \<noteq> newline) s = s" by (metis append_Nil2 takeWhile_dropWhile_id)
  then show ?thesis
    unfolding fgets_def Let_def by (simp only: less_irrefl if_False take_is_prefix)
next
  case (Cons c r)
  then have "c = newline" by (simp add: dropWhile_eq_Cons_conv)
  with Cons have s: "s = takeWhile (\<lambda>c. c \<noteq> newline) s @ newline # r"
    by (metis takeWhile_dropWhile_id)
  then have "length (takeWhile (\<lambda>c. c \<noteq> newline) s) < length s"
    by (metis length_append less_add_same_cancel1 length_greater_0_conv list.distinct(1))
  moreover have "prefix (takeWhile (\<lambda>c. c \<noteq> newline) s @ [newline]) s"
    by (subst (2) s) (simp add: prefix_def)
  ultimately show ?thesis
    unfolding fgets_def Let_def
    by (simp only: if_True) (rule prefix_order.trans [OF take_is_prefix])
qed

lemma fgets_loop_no_NUL: "NUL \<notin> set s \<Longrightarrow> fgets_loop out s = out @ s"
proof (induction out s rule: fgets_loop.induct)
  case (1 out s)
  show ?case
  proof (cases "s = []")
    case False
    have split: "fgets s @ drop (length (fgets s)) s = s"
      using fgets_prefix [of s] by (metis append_eq_conv_conj prefix_def)
    then have nul: "NUL \<notin> set (fgets s)" "NUL \<notin> set (drop (length (fgets s)) s)"
      using "1.prems" by (metis UnI1 set_append, metis UnI2 set_append)
    then have "takeWhile (\<lambda>c. c \<noteq> NUL) (fgets s) = fgets s"
      by (auto simp: takeWhile_eq_all_conv)
    with False "1.IH" nul split show ?thesis
      by (simp add: fgets_loop.simps [of out s] del: takeWhile_eq_all_conv)
  qed (simp add: fgets_loop.simps)
qed

lemma events_of_host_join:
  "events_of_host h (xs = [], start @ join_with ('','' @ [newline]) xs) des =
     (xs @ map (event_json h) des = [], start @ join_with ('','' @ [newline]) (xs @ map (event_json h) des))"
proof (induction des arbitrary: xs)
  case (Cons de des)
  have "start @ join_with ('','' @ [newline]) xs @ (if xs = [] then [] else '','' @ [newline]) @ event_json h de =
      start @ join_with ('','' @ [newline]) (xs @ [event_json h de])"
    by (auto simp: join_with_snoc)
  with Cons.IH [of "xs @ [event_json h de]"] show ?case by simp
qed simp

lemma events_of_hosts_join:
  "events_of_hosts (xs = [], start @ join_with ('','' @ [newline]) xs) hs =
     (let ys = xs @ concat (map (\<lambda>h. map (event_json h) (hs_diagnose_events h)) hs)
      in (ys = [], start @ join_with ('','' @ [newline]) ys))"
proof (induction hs arbitrary: xs)
  case (Cons h hs)
  show ?case
    unfolding events_of_hosts.simps events_of_host_join Cons.IH by (simp add: Let_def)
qed simp

text \<open>The Prometheus text is a sequence of whole lines.\<close>

definition metric_lines :: "string \<Rightarrow> string \<Rightarrow> string \<Rightarrow> string \<Rightarrow> string list" where
  "metric_lines name help labels value =
     [''# HELP '' @ name @ '' '' @ help, ''# TYPE '' @ name @ '' gauge'', name @ labels @ '' '' @ value]"

lemma metric_unlines: "metric name help labels value = unlines (metric_lines name help labels value)"
  by (simp add: metric_def metric_lines_def unlines_def)

text \<open>Names and labels that do not break a line.\<close>

definition one_line :: "string \<Rightarrow> bool" where
  "one_line s \<longleftrightarrow> newline \<notin> set s"

definition labels_ok :: "HostSnapshot \<Rightarrow> bool" where
  "labels_ok h \<longleftrightarrow> one_line (hs_hostname h) \<and>
     list_all (\<lambda>de. one_line (dr_type de) \<and> one_line (dr_process_name de) \<and> one_line (dr_file_path de))
       (hs_diagnose_events h)"

lemma getlines_metric:
  assumes "one_line name" "one_line help" "one_line labels" "one_line value"
  shows "getlines (metric name help labels value @ r) = metric_lines name help labels value @ getlines r"
  unfolding metric_unlines
  by (rule getlines_unlines_append) (use assms in \<open>auto simp: metric_lines_def one_line_def\<close>)

lemma length_metric_lines [simp]: "length (metric_lines n h l v) = 3"
  by (simp add: metric_lines_def)

lemma one_line_shows [simp]:
  "one_line (show_double d)" "one_line (show_int i)" "one_line (show_nat n)"
  by (simp_all add: one_line_def)

lemma one_line_label: "one_line (hs_hostname h) \<Longrightarrow> one_line (braces (host_label h))"
  by (simp add: one_line_def braces_def host_label_def)

lemma event_metric_length:
  assumes "labels_ok h" and "de \<in> set (hs_diagnose_events h)"
  shows "length (getlines (event_metric h de @ r)) = 3 + length (getlines r)"
  unfolding event_metric_def
  by (subst getlines_metric)
     (use assms in \<open>auto simp: labels_ok_def one_line_def braces_def host_label_def list_all_iff\<close>)

lemma event_metrics_length:
  assumes "labels_ok h" and "set des \<subseteq> set (hs_diagnose_events h)"
  shows "length (getlines (concat (map (event_metric h) des) @ r)) = 3 * length des + length (getlines r)"
  using assms by (induction des) (auto simp: event_metric_length)

lemma host_metrics_length:
  assumes "labels_ok h"
  shows "length (getlines (host_metrics h @ r)) = 39 + 3 * length (hs_diagnose_events h) + length (getlines r)"
proof -
  have l: "one_line (braces (host_label h))" using assms by (simp add: labels_ok_def one_line_label)
  have lit: "one_line ''monitor_host_health_score''" "one_line ''Host health score 0-100''"
    "one_line ''monitor_cpu_load_1m''" "one_line ''CPU load 1-minute average''"
    "one_line ''monitor_cpu_used_pct''" "one_line ''CPU usage percentage''"
    "one_line ''monitor_mem_used_pct''" "one_line ''Memory usage percentage''"
    "one_line ''monitor_disk_iops''" "one_line ''Disk IOPS''"
    "one_line ''monitor_net_rx_mbps''" "one_line ''Network RX Mbps''"
    "one_line ''monitor_net_tx_mbps''" "one_line ''Network TX Mbps''"
    "one_line ''monitor_observe_proc_exec''" "one_line ''Process exec events (cumulative)''"
    "one_line ''monitor_observe_proc_exit''" "one_line ''Process exit events (cumulative)''"
    "one_line ''monitor_observe_tcp_flows''" "one_line ''Active TCP flows tracked''"
    "one_line ''monitor_observe_tcp_bytes_sent''" "one_line ''TCP bytes sent (cumulative)''"
    "one_line ''monitor_observe_tcp_bytes_recv''" "one_line ''TCP bytes received (cumulative)''"
    "one_line ''monitor_diagnose_event_count''" "one_line ''Total diagnose records kept''"
    by (simp_all add: one_line_def)
  show ?thesis
    unfolding host_metrics_def Let_def append_assoc
    by (simp only: getlines_metric lit l one_line_shows length_append length_metric_lines
        event_metrics_length [OF assms subset_refl])
qed

lemma hosts_metrics_length:
  assumes "list_all labels_ok hs"
  shows "length (getlines (concat (map host_metrics hs))) =
    sum_list (map (\<lambda>h. 39 + 3 * length (hs_diagnose_events h)) hs)"
  using assms by (induction hs) (simp_all add: host_metrics_length)

lemma GetAll_perm: "iteration_order ord \<Longrightarrow> mset (GetAll ord hosts) = mset (map snd hosts)"
  unfolding GetAll_def mset_map by (simp add: iteration_order_def)

section \<open>Requests\<close>

lemma parse_request_line:
  assumes "CHR '' '' \<notin> set m" "CHR '' '' \<notin> set p" "CHR 0x0D \<notin> set (m @ p)"
  shows "parse_request (m @ '' '' @ p @ '' HTTP/1.1'' @ crlf @ rest) =
    (case find_char CHR ''?'' p of Some q \<Rightarrow> (take q p, drop (q + 1) p) | None \<Rightarrow> (p, []))"
proof -
  define L where "L = m @ CHR '' '' # p @ CHR '' '' # ''HTTP/1.1''"
  have req: "m @ '' '' @ p @ '' HTTP/1.1'' @ crlf @ rest = L @ crlf @ rest"
    by (simp add: L_def)
  have "str_find crlf (L @ crlf @ rest) = Some (length L)"
    by (rule str_find_first) (use assms in \<open>auto simp: L_def\<close>)
  then have line: "(case str_find crlf (L @ crlf @ rest) of Some e \<Rightarrow> take e (L @ crlf @ rest) | None \<Rightarrow> L @ crlf @ rest) = L"
    by simp
  have p1: "find_char CHR '' '' L = Some (length m)"
    unfolding L_def by (rule find_char_append) (use assms in simp)
  have p2: "rfind_char CHR '' '' L = Some (length m + 1 + length p)"
    using rfind_char_append [of "CHR '' ''" "''HTTP/1.1''" "m @ CHR '' '' # p"] by (simp add: L_def)
  have "take (length m + 1 + length p - length m - 1) (drop (length m + 1) L) = p"
    by (simp add: L_def)
  then show ?thesis
    unfolding req parse_request_def line Let_def p1 p2 by (simp split: option.split)
qed

lemma read_request_id: "NUL \<notin> set s \<Longrightarrow> length s \<le> 4095 \<Longrightarrow> read_request s = s"
  by (auto simp: read_request_def takeWhile_eq_all_conv)

lemma parse_request_path_query:
  assumes "CHR '' '' \<notin> set m" "CHR '' '' \<notin> set (p @ q)" "CHR 0x0D \<notin> set (m @ p @ q)"
    "CHR ''?'' \<notin> set p"
  shows "parse_request (m @ '' '' @ (p @ ''?'' @ q) @ '' HTTP/1.1'' @ crlf @ rest) = (p, q)"
    and "parse_request (m @ '' '' @ p @ '' HTTP/1.1'' @ crlf @ rest) = (p, [])"
proof -
  have "find_char CHR ''?'' (p @ CHR ''?'' # q) = Some (length p)"
    by (rule find_char_append [OF assms(4)])
  then show "parse_request (m @ '' '' @ (p @ ''?'' @ q) @ '' HTTP/1.1'' @ crlf @ rest) = (p, q)"
    using assms by (subst parse_request_line) auto
  have "find_char CHR ''?'' p = None" using assms(4) by (simp add: find_char_None)
  then show "parse_request (m @ '' '' @ p @ '' HTTP/1.1'' @ crlf @ rest) = (p, [])"
    using assms by (subst parse_request_line) auto
qed

section \<open>Properties\<close>

text \<open>
  C17: a request that fits the buffer is understood: for any method, path and query without
  spaces, carriage returns and NUL bytes, the reply to \<open>METHOD path?query HTTP/1.1\<close> is the
  router's reply to exactly that path and query, whatever headers follow.
\<close>

theorem http_request_roundtrip:
  assumes "set [CHR '' '', CHR 0x0D, NUL] \<inter> set (m @ p @ q) = {}" and "CHR ''?'' \<notin> set p"
    and "NUL \<notin> set rest"
    and "length (m @ '' '' @ (p @ ''?'' @ q) @ '' HTTP/1.1'' @ crlf @ rest) \<le> 4095"
  shows "serve_request stat_size popen ord hosts (m @ '' '' @ (p @ ''?'' @ q) @ '' HTTP/1.1'' @ crlf @ rest) =
    respond stat_size popen ord hosts (p, q)"
proof -
  let ?s = "m @ '' '' @ (p @ ''?'' @ q) @ '' HTTP/1.1'' @ crlf @ rest"
  have "NUL \<notin> set ?s" using assms(1,3) by auto
  then have "read_request ?s = ?s" using assms(4) by (rule read_request_id)
  moreover have "parse_request ?s = (p, q)"
    by (rule parse_request_path_query(1)) (use assms in auto)
  ultimately show ?thesis by (simp only: serve_request_def)
qed

theorem http_request_roundtrip_witness:
  "serve_request (\<lambda>_. None) (\<lambda>_. None) (\<lambda>hs. hs) []
     (''GET'' @ '' '' @ (''/healthz'' @ ''?'' @ ''v=1'') @ '' HTTP/1.1'' @ crlf @ ''Host: x'') =
   ''HTTP/1.1 200 OK'' @ crlf @ ''Content-Type: text/plain'' @ crlf @ crlf @ ''OK''"
  by (subst http_request_roundtrip) (simp_all add: respond_def)

text \<open>The files the endpoint is meant for: recordings with data, directly inside the diagnose directory.\<close>

definition recording :: "(string \<Rightarrow> nat option) \<Rightarrow> string \<Rightarrow> bool" where
  "recording stat_size name \<longleftrightarrow> CHR ''/'' \<notin> set name \<and> \<not> sublist ''..'' name \<and> suffix ''.data'' name \<and>
     (prefix ''perf_'' name \<or> prefix ''offcpu_'' name \<or> prefix ''profile_'' name) \<and>
     (\<exists>sz. stat_size (diagnose_dir @ name) = Some sz \<and> 0 < sz)"

lemma safe_filename_iff:
  "is_safe_filename name \<longleftrightarrow> CHR ''/'' \<notin> set name \<and> \<not> sublist ''..'' name \<and> suffix ''.data'' name \<and>
     (prefix ''perf_'' name \<or> prefix ''offcpu_'' name \<or> prefix ''profile_'' name)"
proof -
  have suf: "(\<not> (length name < 6 \<or> drop (length name - 5) name \<noteq> ''.data'')) \<longleftrightarrow> suffix ''.data'' name \<and> 6 \<le> length name"
  proof (cases "6 \<le> length name")
    case True
    have "drop (length name - 5) name = ''.data'' \<longleftrightarrow> suffix ''.data'' name"
    proof
      assume "drop (length name - 5) name = ''.data''"
      then show "suffix ''.data'' name" using suffix_drop [of "length name - 5" name] by simp
    next
      assume "suffix ''.data'' name"
      then obtain a where "name = a @ ''.data''" by (auto simp: suffix_def)
      then show "drop (length name - 5) name = ''.data''" by simp
    qed
    with True show ?thesis by auto
  qed auto
  have long: "6 \<le> length name" if "suffix ''.data'' name" "prefix ''perf_'' name \<or> prefix ''offcpu_'' name \<or> prefix ''profile_'' name"
  proof (rule ccontr)
    assume short: "\<not> 6 \<le> length name"
    with that(1) have "name = ''.data''" by (auto simp: suffix_def not_less_eq_eq [symmetric])
    with that(2) show False by (auto simp: prefix_def)
  qed
  show ?thesis
    using suf long by (auto simp: is_safe_filename_def str_find_None starts_with_def find_char_None split: if_splits)
qed

text \<open>
  C18: whatever a client asks for, the flame graph endpoint hands a command to \<open>popen\<close> exactly when
  the \<open>file\<close> parameter names a recording: a non-empty file directly inside the diagnose
  directory whose name has no slash and no double dot, ends in \<open>.data\<close> and starts with one of the
  three tool prefixes. The command is the pipeline for that file and the body is its output;
  otherwise the body is empty. No other path of the server depends on \<open>popen\<close>.
\<close>

theorem flamegraph_confined:
  "flamegraph_request stat_size query =
     (if recording stat_size (parse_param query ''file'') then Some (flamegraph_cmd (parse_param query ''file'')) else None) \<and>
   api_flamegraph stat_size popen query =
     (if recording stat_size (parse_param query ''file'') then run_pipeline popen (flamegraph_cmd (parse_param query ''file'')) else []) \<and>
   (path = ''/api/flamegraph'' \<or> respond stat_size popen ord hosts (path, query) = respond stat_size popen' ord hosts (path, query))"
proof -
  have "flamegraph_request stat_size query =
     (if recording stat_size (parse_param query ''file'') then Some (flamegraph_cmd (parse_param query ''file'')) else None)"
    by (auto simp: flamegraph_request_def recording_def safe_filename_iff Let_def split: option.splits)
  then show ?thesis by (simp add: api_flamegraph_def respond_def)
qed

text \<open>A request for a recording runs the pipeline, one for a file outside the directory runs nothing.\<close>

theorem flamegraph_confined_witness:
  "let stat_size = (\<lambda>p. if p = diagnose_dir @ ''perf_a.data'' then Some 1 else None) in
   api_flamegraph stat_size (\<lambda>cmd. Some ''svg'') ''file=perf_a.data'' = ''svg'' \<and>
   flamegraph_request stat_size ''file=perf_a.data'' = Some (flamegraph_cmd ''perf_a.data'') \<and>
   flamegraph_request stat_size ''file=../perf_a.data'' = None"
proof -
  let ?stat = "\<lambda>p. if p = diagnose_dir @ ''perf_a.data'' then Some (1::nat) else None"
  have p: "parse_param ''file=perf_a.data'' ''file'' = ''perf_a.data''" "parse_param ''file=../perf_a.data'' ''file'' = ''../perf_a.data''"
    by (simp_all add: parse_param_def prefix_def)
  have "is_safe_filename ''perf_a.data''" "\<not> is_safe_filename ''../perf_a.data''" by code_simp+
  then have r: "recording ?stat ''perf_a.data''" "\<not> recording ?stat ''../perf_a.data''"
    by (simp_all add: recording_def safe_filename_iff)
  have "run_pipeline (\<lambda>cmd. Some ''svg'') (flamegraph_cmd ''perf_a.data'') = ''svg''"
    by (simp add: run_pipeline_def fgets_loop_no_NUL)
  with flamegraph_confined [of ?stat "''file=perf_a.data''" "\<lambda>cmd. Some ''svg''"]
    flamegraph_confined [of ?stat "''file=../perf_a.data''"] r show ?thesis
    unfolding p Let_def by (simp only: if_True if_False simp_thms)
qed

text \<open>
  C19: the event list is the JSON array of one object per diagnose event of every host, host
  by host in the order of the map and each host's events in their order, separated by commas.
  It is therefore bounded by 20 events per host, not by 20 in all.
\<close>

theorem api_events_lists_all:
  "api_events ord hosts =
     ''['' @ [newline] @
     join_with ('','' @ [newline])
       (concat (map (\<lambda>h. map (event_json h) (hs_diagnose_events h)) (GetAll ord hosts))) @
     [newline] @ '']''"
  using events_of_hosts_join [of "[]" "''['' @ [newline]" "GetAll ord hosts"]
  by (simp add: api_events_def Let_def)

text \<open>
  The Prometheus text has three lines for the host count and, for each host, three lines
  for each of its thirteen gauges and for each of its diagnose events, for every iteration
  order of the map, provided no name reported by a worker contains a line break.
\<close>

lemma metrics_line_count:
  assumes "iteration_order ord" and "list_all (\<lambda>(k, v). labels_ok v) hosts"
  shows "length (getlines (prometheus_metrics ord hosts)) =
    3 + sum_list (map (\<lambda>(k, v). 39 + 3 * length (hs_diagnose_events v)) hosts)"
proof -
  have ok: "list_all labels_ok (GetAll ord hosts)"
    using assms by (auto simp: GetAll_def list_all_iff)
  have "length (getlines (prometheus_metrics ord hosts)) =
      3 + sum_list (map (\<lambda>h. 39 + 3 * length (hs_diagnose_events h)) (GetAll ord hosts))"
    unfolding prometheus_metrics_def Let_def
    by (subst getlines_metric)
       (simp_all only: one_line_shows length_append length_metric_lines hosts_metrics_length [OF ok],
        simp_all add: one_line_def)
  also have "sum_list (map (\<lambda>h. 39 + 3 * length (hs_diagnose_events h)) (GetAll ord hosts)) =
      sum_list (map (\<lambda>h. 39 + 3 * length (hs_diagnose_events h)) (map snd hosts))"
    unfolding sum_mset_sum_list [symmetric] mset_map [of _ "GetAll ord hosts"] GetAll_perm [OF assms(1)]
    by (simp only: mset_map)
  also have "map (\<lambda>h. 39 + 3 * length (hs_diagnose_events h)) (map snd hosts) =
      map (\<lambda>(k, v). 39 + 3 * length (hs_diagnose_events v)) hosts"
    by auto
  finally show ?thesis .
qed

text \<open>The names the flame graph endpoint accepts are put into a shell command without quoting.\<close>

lemma safe_filename_shell: "is_safe_filename ''perf_$(id);x.data''"
  by code_simp

end
