(* ===== verification/HttpServer.thy ===== *)
theory HttpServer
  imports MetricsExporter
begin

text \<open>
  The HTTP server of the manager (\<open>src/manager/include/rpc/metrics_exporter.h\<close> and the constructor,
  \<open>Start\<close>, \<open>Stop\<close> and \<open>serve_loop\<close> of \<open>metrics_exporter.cpp\<close>) as the sequence of its system calls.
  What a call returns is an input. The sockets are blocking, so a \<open>read\<close> or \<open>write\<close> may not
  return; then neither does the loop, which is why the loop is a partial function.
\<close>

section \<open>State and system calls\<close>

record MetricsExporter =
  me_port :: int
  me_thread :: bool
  me_running :: bool

definition MetricsExporter_new :: "int \<Rightarrow> MetricsExporter" where
  "MetricsExporter_new port = \<lparr>me_port = port, me_thread = False, me_running = False\<rparr>"

datatype http_call = Opened int | Accepted int | Wrote int string | Closed int

datatype 'a io = Returns 'a | Blocks

text \<open>The results of \<open>socket\<close>, \<open>bind\<close> and \<open>listen\<close>.\<close>

record listen_calls =
  lc_socket :: int
  lc_bind :: int
  lc_listen :: int

text \<open>
  One round of the loop: the value of \<open>running_\<close> at its head, the results of \<open>select\<close> and
  \<open>accept\<close>, the bytes \<open>read\<close> delivers (none when it fails) and the number of bytes \<open>write\<close> accepts,
  and what the request handlers see of the store, the file sizes and the shell.
\<close>

record poll =
  po_running :: bool
  po_select :: int
  po_accept :: int
  po_read :: "string io"
  po_write :: "nat io"
  po_hosts :: hosts
  po_ord :: "hosts \<Rightarrow> hosts"
  po_stat :: "string \<Rightarrow> nat option"
  po_popen :: "string \<Rightarrow> string option"

section \<open>The server loop\<close>

definition poll_response :: "poll \<Rightarrow> string \<Rightarrow> string" where
  "poll_response p bytes = serve_request (po_stat p) (po_popen p) (po_ord p) (po_hosts p) bytes"

definition serve_round :: "poll \<Rightarrow> http_call list option" where
  "serve_round p =
     (if po_select p \<le> 0 then Some []
      else let client_fd = po_accept p
           in if client_fd < 0 then Some []
              else case po_read p of
                     Blocks \<Rightarrow> None
                   | Returns bytes \<Rightarrow>
                       (case po_write p of
                          Blocks \<Rightarrow> None
                        | Returns n \<Rightarrow>
                            Some [Accepted client_fd, Wrote client_fd (take n (poll_response p bytes)), Closed client_fd]))"

partial_function (option) serve_rounds :: "(nat \<Rightarrow> poll) \<Rightarrow> nat \<Rightarrow> http_call list \<Rightarrow> http_call list option" where
  "serve_rounds polls n calls =
     (if \<not> po_running (polls n) then Some calls
      else case serve_round (polls n) of
             None \<Rightarrow> None
           | Some cs \<Rightarrow> serve_rounds polls (Suc n) (calls @ cs))"

definition serve_loop :: "listen_calls \<Rightarrow> (nat \<Rightarrow> poll) \<Rightarrow> http_call list option" where
  "serve_loop l polls =
     (let server_fd = lc_socket l
      in if server_fd < 0 then Some []
         else if lc_bind l < 0 then Some [Opened server_fd, Closed server_fd]
         else if lc_listen l < 0 then Some [Opened server_fd, Closed server_fd]
         else case serve_rounds polls 0 [Opened server_fd] of
                None \<Rightarrow> None
              | Some calls \<Rightarrow> Some (calls @ [Closed server_fd]))"

definition Exporter_Start :: "MetricsExporter \<Rightarrow> MetricsExporter" where
  "Exporter_Start m = m\<lparr>me_running := True, me_thread := True\<rparr>"

text \<open>\<open>Stop\<close> waits for the thread: it returns when the loop does.\<close>

definition Exporter_Stop :: "listen_calls \<Rightarrow> (nat \<Rightarrow> poll) \<Rightarrow> MetricsExporter \<Rightarrow> MetricsExporter option" where
  "Exporter_Stop l polls m =
     (let m = m\<lparr>me_running := False\<rparr>
      in if me_thread m
         then (case serve_loop l polls of None \<Rightarrow> None | Some calls \<Rightarrow> Some (m\<lparr>me_thread := False\<rparr>))
         else Some m)"

definition Exporter_destroy :: "listen_calls \<Rightarrow> (nat \<Rightarrow> poll) \<Rightarrow> MetricsExporter \<Rightarrow> MetricsExporter option" where
  "Exporter_destroy l polls m = Exporter_Stop l polls m"

section \<open>When the loop returns\<close>

definition round_calls :: "poll \<Rightarrow> http_call list" where
  "round_calls p = (case serve_round p of None \<Rightarrow> [] | Some cs \<Rightarrow> cs)"

lemma serve_rounds_unfold:
  "\<not> po_running (polls n) \<Longrightarrow> serve_rounds polls n calls = Some calls"
  "po_running (polls n) \<Longrightarrow> serve_round (polls n) = Some cs \<Longrightarrow> serve_rounds polls n calls = serve_rounds polls (Suc n) (calls @ cs)"
  "po_running (polls n) \<Longrightarrow> serve_round (polls n) = None \<Longrightarrow> serve_rounds polls n calls = None"
  by (simp_all add: serve_rounds.simps)

lemma serve_rounds_until:
  assumes "\<forall>k. n \<le> k \<and> k < n + d \<longrightarrow> po_running (polls k) \<and> serve_round (polls k) \<noteq> None"
    and "\<not> po_running (polls (n + d))"
  shows "serve_rounds polls n calls = Some (calls @ concat (map (\<lambda>k. round_calls (polls k)) [n..<n + d]))"
  using assms
proof (induction d arbitrary: n calls)
  case 0
  then show ?case by (simp add: serve_rounds_unfold)
next
  case (Suc d)
  then have "po_running (polls n)" "serve_round (polls n) \<noteq> None" by simp_all
  then obtain cs where cs: "po_running (polls n)" "serve_round (polls n) = Some cs" by blast
  have "serve_rounds polls (Suc n) (calls @ cs) =
      Some ((calls @ cs) @ concat (map (\<lambda>k. round_calls (polls k)) [Suc n..<Suc n + d]))"
    using Suc.prems by (intro Suc.IH) simp_all
  moreover have "[n..<n + Suc d] = n # [Suc n..<Suc n + d]" by (simp add: upt_conv_Cons)
  ultimately show ?case using cs by (simp add: serve_rounds_unfold round_calls_def)
qed

text \<open>A run that returns went through finitely many rounds, none of which blocked.\<close>

lemma serve_rounds_returns:
  assumes "serve_rounds polls n calls = Some out"
  shows "\<exists>d. (\<forall>k. n \<le> k \<and> k < n + d \<longrightarrow> po_running (polls k) \<and> serve_round (polls k) \<noteq> None) \<and> \<not> po_running (polls (n + d))"
proof (rule serve_rounds.raw_induct [where P = "\<lambda>polls n calls out. \<exists>d. (\<forall>k. n \<le> k \<and> k < n + d \<longrightarrow>
    po_running (polls k) \<and> serve_round (polls k) \<noteq> None) \<and> \<not> po_running (polls (n + d))", OF _ assms])
  fix rec :: "(nat \<Rightarrow> poll) \<Rightarrow> nat \<Rightarrow> http_call list \<Rightarrow> http_call list option" and polls n calls out
  assume IH: "\<And>polls n calls out. rec polls n calls = Some out \<Longrightarrow> \<exists>d. (\<forall>k. n \<le> k \<and> k < n + d \<longrightarrow>
      po_running (polls k) \<and> serve_round (polls k) \<noteq> None) \<and> \<not> po_running (polls (n + d))"
    and body: "(if \<not> po_running (polls n) then Some calls
      else case serve_round (polls n) of None \<Rightarrow> None | Some cs \<Rightarrow> rec polls (Suc n) (calls @ cs)) = Some out"
  show "\<exists>d. (\<forall>k. n \<le> k \<and> k < n + d \<longrightarrow> po_running (polls k) \<and> serve_round (polls k) \<noteq> None) \<and> \<not> po_running (polls (n + d))"
  proof (cases "po_running (polls n)")
    case False
    then show ?thesis by (intro exI [of _ 0]) auto
  next
    case True
    with body obtain cs where cs: "serve_round (polls n) = Some cs" and r: "rec polls (Suc n) (calls @ cs) = Some out"
      by (auto split: option.splits)
    from IH [OF r] obtain d where d: "\<forall>k. Suc n \<le> k \<and> k < Suc n + d \<longrightarrow> po_running (polls k) \<and> serve_round (polls k) \<noteq> None"
      "\<not> po_running (polls (Suc n + d))" by blast
    have "po_running (polls k) \<and> serve_round (polls k) \<noteq> None" if "n \<le> k" "k < n + Suc d" for k
      using that d(1) True cs by (cases "k = n") auto
    with d(2) show ?thesis by (intro exI [of _ "Suc d"]) auto
  qed
qed

lemma serve_rounds_never:
  assumes "\<not> (\<exists>n. \<not> po_running (polls n) \<and> (\<forall>k < n. serve_round (polls k) \<noteq> None))"
  shows "serve_rounds polls 0 calls = None"
proof (rule ccontr)
  assume "serve_rounds polls 0 calls \<noteq> None"
  then obtain out where "serve_rounds polls 0 calls = Some out" by blast
  from serve_rounds_returns [OF this] obtain d where "\<forall>k < d. serve_round (polls k) \<noteq> None" "\<not> po_running (polls d)" by auto
  with assms show False by blast
qed

text \<open>Descriptors still open after a sequence of calls.\<close>

fun open_fds :: "int list \<Rightarrow> http_call list \<Rightarrow> int list" where
  "open_fds fds [] = fds"
| "open_fds fds (Opened fd # cs) = open_fds (fd # fds) cs"
| "open_fds fds (Accepted fd # cs) = open_fds (fd # fds) cs"
| "open_fds fds (Wrote fd bytes # cs) = open_fds fds cs"
| "open_fds fds (Closed fd # cs) = open_fds (remove1 fd fds) cs"

lemma open_fds_append: "open_fds fds (xs @ ys) = open_fds (open_fds fds xs) ys"
  by (induction fds xs rule: open_fds.induct) simp_all

lemma open_fds_round: "open_fds fds (round_calls p) = fds"
  by (simp add: round_calls_def serve_round_def Let_def split: option.splits io.splits)

lemma open_fds_rounds: "open_fds fds (concat (map (\<lambda>k. round_calls (polls k)) ks)) = fds"
  by (induction ks) (simp_all add: open_fds_append open_fds_round)

definition listens :: "listen_calls \<Rightarrow> bool" where
  "listens l \<longleftrightarrow> 0 \<le> lc_socket l \<and> 0 \<le> lc_bind l \<and> 0 \<le> lc_listen l"

lemma serve_loop_exact:
  assumes "listens l" and "\<not> po_running (polls n)" and "\<forall>k < n. po_running (polls k) \<and> serve_round (polls k) \<noteq> None"
  shows "serve_loop l polls =
    Some (Opened (lc_socket l) # concat (map (\<lambda>k. round_calls (polls k)) [0..<n]) @ [Closed (lc_socket l)])"
  using assms serve_rounds_until [of 0 n polls "[Opened (lc_socket l)]"]
  by (simp add: serve_loop_def listens_def Let_def)

lemma first_stop:
  fixes n :: nat
  assumes "\<not> P n" and "\<forall>k < n. Q k"
  shows "\<exists>m. \<not> P m \<and> (\<forall>k < m. P k \<and> Q k)"
proof -
  obtain m where "m \<le> n" "\<forall>k < m. P k" "\<not> P m"
    using ex_least_nat_le [of "\<lambda>m. \<not> P m", OF assms(1)] by auto
  with assms(2) show ?thesis by (meson less_le_trans)
qed

lemma serve_loop_ends:
  assumes "\<exists>n. \<not> po_running (polls n) \<and> (\<forall>k < n. serve_round (polls k) \<noteq> None)"
  shows "serve_loop l polls \<noteq> None"
proof (cases "listens l")
  case False
  then show ?thesis by (auto simp: serve_loop_def listens_def Let_def)
next
  case True
  from assms obtain n where n: "\<not> po_running (polls n)" "\<forall>k < n. serve_round (polls k) \<noteq> None" by blast
  from first_stop [of "\<lambda>k. po_running (polls k)", OF n] obtain m where
    "\<not> po_running (polls m)" "\<forall>k < m. po_running (polls k) \<and> serve_round (polls k) \<noteq> None" by blast
  from serve_loop_exact [OF True this] show ?thesis by simp
qed

text \<open>
  C11: The server loop ends exactly when the socket cannot be set up, or when \<open>running_\<close> is cleared
  and no client accepted before that keeps \<open>read\<close> or \<open>write\<close> from returning; and whenever it
  ends, every descriptor it opened is closed again, on every path.
\<close>

theorem serve_loop_ends_iff:
  "(serve_loop l polls \<noteq> None \<longleftrightarrow>
      \<not> listens l \<or> (\<exists>n. \<not> po_running (polls n) \<and> (\<forall>k < n. serve_round (polls k) \<noteq> None))) \<and>
   (case serve_loop l polls of None \<Rightarrow> True | Some calls \<Rightarrow> open_fds [] calls = [])"
proof (cases "listens l")
  case False
  then show ?thesis by (auto simp: serve_loop_def listens_def Let_def)
next
  case True
  show ?thesis
  proof (cases "\<exists>n. \<not> po_running (polls n) \<and> (\<forall>k < n. serve_round (polls k) \<noteq> None)")
    case ends: True
    then obtain n where n: "\<not> po_running (polls n)" "\<forall>k < n. serve_round (polls k) \<noteq> None" by blast
    from first_stop [of "\<lambda>k. po_running (polls k)", OF n] obtain m where
      m: "\<not> po_running (polls m)" "\<forall>k < m. po_running (polls k) \<and> serve_round (polls k) \<noteq> None" by blast
    from serve_loop_exact [OF True m] ends show ?thesis by (simp add: open_fds_append open_fds_rounds)
  next
    case runs: False
    then have "serve_rounds polls 0 [Opened (lc_socket l)] = None" by (rule serve_rounds_never)
    with True runs show ?thesis by (simp add: serve_loop_def listens_def Let_def)
  qed
qed

text \<open>A client that connects and sends nothing keeps the server, and \<open>Stop\<close>, waiting.\<close>

lemma silent_client_blocks_stop:
  assumes "listens l" and "\<forall>k \<le> n. po_running (polls k)"
    and "0 < po_select (polls n)" and "0 \<le> po_accept (polls n)" and "po_read (polls n) = Blocks" and "me_thread m"
  shows "Exporter_Stop l polls m = None"
proof -
  have stuck: "serve_round (polls n) = None" using assms(3-5) by (simp add: serve_round_def)
  have "\<not> (\<exists>k. \<not> po_running (polls k) \<and> (\<forall>i < k. serve_round (polls i) \<noteq> None))"
  proof
    assume "\<exists>k. \<not> po_running (polls k) \<and> (\<forall>i < k. serve_round (polls i) \<noteq> None)"
    then obtain k where k: "\<not> po_running (polls k)" "\<forall>i < k. serve_round (polls i) \<noteq> None" by blast
    with assms(2) have "n < k" by (meson not_le)
    with k(2) stuck show False by blast
  qed
  then have "serve_rounds polls 0 [Opened (lc_socket l)] = None" by (rule serve_rounds_never)
  with assms(1,6) show ?thesis by (simp add: Exporter_Stop_def serve_loop_def listens_def Let_def)
qed

section \<open>A run\<close>

definition demo_listen :: listen_calls where
  "demo_listen = \<lparr>lc_socket = 3, lc_bind = 0, lc_listen = 0\<rparr>"

definition demo_polls :: "nat \<Rightarrow> poll" where
  "demo_polls n = \<lparr>po_running = (n < 2), po_select = 1, po_accept = 4, po_read = Returns ''GET /healthz HTTP/1.1'',
     po_write = Returns 7, po_hosts = [], po_ord = (\<lambda>hs. hs), po_stat = (\<lambda>_. None), po_popen = (\<lambda>_. None)\<rparr>"

lemma demo_polls_end: "\<exists>n. \<not> po_running (demo_polls n) \<and> (\<forall>k < n. serve_round (demo_polls k) \<noteq> None)"
  by (intro exI [of _ 2]) (simp add: demo_polls_def serve_round_def)

theorem serve_loop_ends_iff_witness:
  "\<exists>calls. serve_loop demo_listen demo_polls = Some calls \<and> open_fds [] calls = []"
  using serve_loop_ends_iff [of demo_listen demo_polls] demo_polls_end by (auto split: option.splits)

end
