(* ===== verification/MonitorInterface.thy ===== *)
theory MonitorInterface
  imports Iostream
begin

text \<open>
  The interface of every collector (\<open>src/worker/include/monitor/monitor_inter.h\<close>) and the file
  reading helpers (\<open>src/worker/src/utils/read_file.cpp\<close>). A collector is initialised once and
  then collected and reset any number of times; \<open>Collect\<close> may raise an exception, which ends
  the pushing thread. The locale \<open>monitor_interface\<close> states what a collector promises; every
  collector of the worker interprets it. The locale \<open>counter_sampler\<close> is the contract shared
  by the collectors that report differences of kernel counters between two samples.
\<close>

section \<open>Reading files\<close>

text \<open>The file system as the code sees it: the content of a path that can be opened.\<close>

type_synonym file_system = "string \<Rightarrow> string option"

definition ReadFile :: "file_system \<Rightarrow> string \<Rightarrow> string" where
  "ReadFile fs path = (case fs path of None \<Rightarrow> [] | Some content \<Rightarrow> content)"

definition ReadLines :: "file_system \<Rightarrow> string \<Rightarrow> string list" where
  "ReadLines fs path =
     (case fs path of None \<Rightarrow> [] | Some content \<Rightarrow> filter (\<lambda>line. line \<noteq> []) (getlines content))"

section \<open>The environment of a collection\<close>

text \<open>
  What one call sees of the operating system: the files, the number of processors
  (\<open>sysconf\<close>), the host name (\<open>gethostname\<close>), the text form of the first IPv4 address the
  resolver returns for a name (\<open>getaddrinfo\<close>, \<open>inet_ntop\<close>), and the orders in which the hash
  maps of the disk and network collectors are iterated, as orders of their keys.
\<close>

record env =
  env_fs :: file_system
  env_nprocs :: i64
  env_gethostname :: "string option"
  env_getaddrinfo :: "string \<Rightarrow> string option"
  env_disk_ord :: "string list \<Rightarrow> string list"
  env_net_ord :: "string list \<Rightarrow> string list"

definition iterate_map :: "(string list \<Rightarrow> string list) \<Rightarrow> (string \<times> 'r) list \<Rightarrow> (string \<times> 'r) list" where
  "iterate_map ord m =
     concat (map (\<lambda>k. case map_of m k of None \<Rightarrow> [] | Some r \<Rightarrow> [(k, r)]) (ord (map fst m)))"

lemma iterate_map_id: "distinct (map fst m) \<Longrightarrow> iterate_map (\<lambda>ks. ks) m = m"
proof -
  have "set m \<subseteq> set m' \<Longrightarrow> distinct (map fst m') \<Longrightarrow>
      concat (map (\<lambda>k. case map_of m' k of None \<Rightarrow> [] | Some r \<Rightarrow> [(k, r)]) (map fst m)) = m" for m'
  proof (induction m)
    case (Cons kr m)
    obtain k r where "kr = (k, r)" by (cases kr)
    moreover with Cons.prems have "map_of m' k = Some r" by simp
    ultimately show ?case using Cons by simp
  qed simp
  then show "distinct (map fst m) \<Longrightarrow> iterate_map (\<lambda>ks. ks) m = m"
    by (simp add: iterate_map_def)
qed

lemma mset_iterate_map:
  assumes "iteration_order ord" and "distinct (map fst m)"
  shows "mset (iterate_map ord m) = mset m"
proof -
  have "mset (ord (map fst m)) = mset (map fst m)" using assms(1) by (simp only: iteration_order_def)
  then have "mset (iterate_map ord m) = mset (iterate_map (\<lambda>ks. ks) m)"
    unfolding iterate_map_def by (rule mset_concat_map_cong)
  with iterate_map_id [OF assms(2)] show ?thesis by simp
qed

text \<open>Differences of 64-bit counters as doubles.\<close>

lemma u64_diff_exact:
  assumes "p \<le> c" and "uint c - uint p = n" and "n \<le> 2 ^ 53"
  shows "of_u64 (c - p) = Fin (of_int n)"
proof -
  have "uint (c - p) = n" using assms(1,2) by (simp add: uint_minus_simple_alt word_le_def)
  moreover have "0 \<le> n" using assms(1,2) by (simp add: word_le_def)
  ultimately show ?thesis using assms(3) by (simp only: of_u64_def) (simp add: rnd_of_int)
qed

text \<open>The sum of two counters may wrap; the difference of the sums is still the sum of the differences.\<close>

lemma u64_sum_diff_exact:
  assumes "p \<le> c" and "q \<le> d" and "uint c - uint p = n" and "uint d - uint q = k" and "n + k \<le> 2 ^ 53"
  shows "of_u64 ((c + d) - (p + q)) = Fin (of_int (n + k))"
proof -
  have "0 \<le> n" "0 \<le> k" using assms(1-4) by (auto simp: word_le_def)
  moreover have "(c + d) - (p + q) = word_of_int (n + k)"
    by (simp add: assms(3,4) [symmetric] algebra_simps)
  ultimately have "uint ((c + d) - (p + q)) = n + k"
    using assms(5) by (simp only: uint_word_of_int_eq) (simp add: take_bit_int_eq_self)
  with \<open>0 \<le> n\<close> \<open>0 \<le> k\<close> assms(5) show ?thesis
    by (simp only: of_u64_def) (simp add: rnd_of_int del: of_int_add)
qed

text \<open>A percentage that is a number from 0 to 100.\<close>

definition pct_ok :: "double \<Rightarrow> bool" where
  "pct_ok d \<longleftrightarrow> dle (Fin 0) d \<and> dle d (Fin 100)"

section \<open>The collector interface\<close>

datatype 'env call = CallCollect 'env | CallReset

fun run_calls ::
    "('env \<Rightarrow> 's \<Rightarrow> 's res) \<Rightarrow> ('s \<Rightarrow> 's) \<Rightarrow> 'env call list \<Rightarrow> 's \<Rightarrow> 's res" where
  "run_calls collect reset [] s = Inr s"
| "run_calls collect reset (CallCollect env # cs) s =
     bind_res (collect env s) (run_calls collect reset cs)"
| "run_calls collect reset (CallReset # cs) s = run_calls collect reset cs (reset s)"

locale monitor_interface =
  fixes new :: 's and init :: "'env \<Rightarrow> 's \<Rightarrow> 's" and collect :: "'env \<Rightarrow> 's \<Rightarrow> 's res"
    and reset :: "'s \<Rightarrow> 's" and wf :: "'s \<Rightarrow> bool"
  assumes wf_init: "wf (init env new)"
    and wf_collect: "wf s \<Longrightarrow> collect env s = Inr s' \<Longrightarrow> wf s'"
    and wf_reset: "wf s \<Longrightarrow> wf (reset s)"
begin

lemma run_calls_wf: "wf s \<Longrightarrow> run_calls collect reset cs s = Inr s' \<Longrightarrow> wf s'"
proof (induction cs arbitrary: s)
  case (Cons c cs)
  then show ?case by (cases c) (auto dest: wf_collect wf_reset)
qed simp

lemma session_wf: "run_calls collect reset cs (init env new) = Inr s' \<Longrightarrow> wf s'"
  using wf_init by (rule run_calls_wf)

end

text \<open>A collector whose \<open>Collect\<close> never raises an exception always completes.\<close>

locale total_monitor = monitor_interface +
  assumes collect_total: "\<exists>s'. collect env s = Inr s'"
begin

lemma run_calls_total: "\<exists>s'. run_calls collect reset cs s = Inr s'"
proof (induction cs arbitrary: s)
  case (Cons c cs)
  show ?case
  proof (cases c)
    case (CallCollect env)
    obtain s' where "collect env s = Inr s'" using collect_total by blast
    with CallCollect Cons.IH [of s'] show ?thesis by simp
  next
    case CallReset
    with Cons.IH [of "reset s"] show ?thesis by simp
  qed
qed simp

end

section \<open>Sampling counters\<close>

text \<open>
  The reference for the second half of a sampler's \<open>Collect\<close>: one record for every visible
  name of the current sample that was in the previous sample too.
\<close>

definition sample_deltas ::
    "(string \<Rightarrow> 'r \<Rightarrow> 'r \<Rightarrow> 'o) \<Rightarrow> (string \<Rightarrow> bool) \<Rightarrow> (string \<times> 'r) list \<Rightarrow> (string \<times> 'r) list \<Rightarrow> 'o list" where
  "sample_deltas delta visible prev cur =
     concat (map (\<lambda>(k, c). if visible k then (case map_of prev k of None \<Rightarrow> [] | Some p \<Rightarrow> [delta k p c]) else []) cur)"

lemma sample_deltas_simps [simp]:
  "sample_deltas delta visible p [] = []"
  "sample_deltas delta visible p ((k, c) # xs) =
     (if visible k then (case map_of p k of None \<Rightarrow> [] | Some r \<Rightarrow> [delta k r c]) else []) @
     sample_deltas delta visible p xs"
  by (simp_all add: sample_deltas_def)

lemma set_sample_deltas:
  "set (sample_deltas delta visible p xs) =
     {delta k r c | k r c. (k, c) \<in> set xs \<and> visible k \<and> map_of p k = Some r}"
proof (induction xs)
  case (Cons kc xs)
  obtain k c where "kc = (k, c)" by (cases kc)
  with Cons show ?case
    by (cases "visible k"; cases "map_of p k") auto
qed simp

lemma mset_sample_deltas:
  assumes "mset xs = mset ys"
  shows "mset (sample_deltas delta visible p xs) = mset (sample_deltas delta visible p ys)"
  unfolding sample_deltas_def using assms by (rule mset_concat_map_cong)

locale counter_sampler =
  fixes parse :: "'env \<Rightarrow> (string \<times> 'r) list" and prev :: "'s \<Rightarrow> (string \<times> 'r) list"
    and out :: "'s \<Rightarrow> 'o list" and collect :: "'env \<Rightarrow> 's \<Rightarrow> 's"
    and delta :: "string \<Rightarrow> 'r \<Rightarrow> 'r \<Rightarrow> 'o" and visible :: "string \<Rightarrow> bool" and name :: "'o \<Rightarrow> string"
    and env_ok :: "'env \<Rightarrow> bool"
  assumes parse_distinct: "distinct (map fst (parse env))"
    and collect_out: "env_ok env \<Longrightarrow>
      mset (out (collect env s)) = mset (sample_deltas delta visible (prev s) (parse env))"
    and collect_prev: "prev (collect env s) = parse env"
    and name_delta: "name (delta k p c) = k"
begin

lemma set_out:
  assumes "env_ok env"
  shows "set (out (collect env s)) =
    {delta k p c | k p c. (k, c) \<in> set (parse env) \<and> visible k \<and> map_of (prev s) k = Some p}"
proof -
  have "set (out (collect env s)) = set (sample_deltas delta visible (prev s) (parse env))"
    using collect_out [OF assms, of s] by (metis set_mset_mset)
  then show ?thesis by (simp only: set_sample_deltas)
qed

lemma sample_names_distinct:
  "distinct (map fst xs) \<Longrightarrow> distinct (map name (sample_deltas delta visible p xs))"
proof (induction xs)
  case (Cons kc xs)
  obtain k c where kc: "kc = (k, c)" by (cases kc)
  with Cons.prems have "k \<notin> name ` set (sample_deltas delta visible p xs)"
    by (force simp: set_sample_deltas name_delta)
  with Cons kc show ?case
    by (cases "visible k"; cases "map_of p k") (auto simp: name_delta)
qed simp

lemma names_distinct:
  assumes "env_ok env"
  shows "distinct (map name (out (collect env s)))"
proof -
  have "distinct (map name (sample_deltas delta visible (prev s) (parse env)))"
    by (rule sample_names_distinct [OF parse_distinct])
  moreover have "mset (map name (out (collect env s))) =
      mset (map name (sample_deltas delta visible (prev s) (parse env)))"
    using collect_out [OF assms, of s] by simp
  ultimately show ?thesis by (metis mset_eq_imp_distinct_iff)
qed

text \<open>Sampling the same counters again reports each of them against itself.\<close>

lemma resample_same:
  assumes "env_ok env"
  shows "set (out (collect env (collect env s))) =
    {delta k c c | k c. (k, c) \<in> set (parse env) \<and> visible k}"
  unfolding set_out [OF assms] collect_prev
  using parse_distinct [of env] by (auto dest: eq_key_imp_eq_value)

end

end
