(* ===== verification/CpuMonitors.thy ===== *)
theory CpuMonitors
  imports MonitorInterface
begin

text \<open>
  The CPU collectors: \<open>CpuLoadMonitor\<close> reads \<open>/proc/loadavg\<close> and \<open>CpuStatMonitor\<close> turns two
  samples of the \<open>cpu\<close> line of \<open>/proc/stat\<close> into percentages
  (\<open>src/worker/src/monitor/cpu_load_monitor.cpp\<close>, \<open>cpu_stat_monitor.cpp\<close>). The counters are
  64-bit words, so the totals and differences wrap as in the code.
\<close>

section \<open>Load averages\<close>

record CpuLoadMonitor =
  load_1m :: double
  load_5m :: double
  load_15m :: double
  nr_cores :: i32

definition CpuLoadMonitor_new :: CpuLoadMonitor where
  "CpuLoadMonitor_new = \<lparr>load_1m = Fin 0, load_5m = Fin 0, load_15m = Fin 0, nr_cores = 1\<rparr>"

text \<open>\<open>nprocs\<close> is the result of \<open>sysconf(_SC_NPROCESSORS_ONLN)\<close>.\<close>

definition CpuLoad_Init :: "i64 \<Rightarrow> CpuLoadMonitor \<Rightarrow> CpuLoadMonitor" where
  "CpuLoad_Init nprocs m =
     (let n = ucast nprocs :: i32 in m\<lparr>nr_cores := (if sint n < 1 then 1 else n)\<rparr>)"

definition CpuLoad_Collect :: "file_system \<Rightarrow> CpuLoadMonitor \<Rightarrow> CpuLoadMonitor" where
  "CpuLoad_Collect fs m =
     (let content = ReadFile fs ''/proc/loadavg''
      in if content = [] then m
         else let iss = istringstream content;
                  (l1, iss) = read_double iss (load_1m m);
                  (l5, iss) = read_double iss (load_5m m);
                  (l15, iss) = read_double iss (load_15m m)
              in m\<lparr>load_1m := l1, load_5m := l5, load_15m := l15\<rparr>)"

section \<open>CPU time\<close>

record CpuStatRaw =
  user :: u64
  nice :: u64
  system :: u64
  idle :: u64
  iowait :: u64
  irq :: u64
  softirq :: u64
  steal :: u64

definition CpuStatRaw_zero :: CpuStatRaw where
  "CpuStatRaw_zero = \<lparr>user = 0, nice = 0, system = 0, idle = 0, iowait = 0, irq = 0, softirq = 0, steal = 0\<rparr>"

definition cpu_total :: "CpuStatRaw \<Rightarrow> u64" where
  "cpu_total r = user r + nice r + system r + idle r + iowait r + irq r + softirq r + steal r"

record CpuStatPct =
  p_user :: double
  p_system :: double
  p_idle :: double
  p_iowait :: double
  p_steal :: double
  p_softirq :: double

record CpuStatMonitor =
  pct :: CpuStatPct
  prev_stat :: CpuStatRaw

definition CpuStatMonitor_new :: CpuStatMonitor where
  "CpuStatMonitor_new =
     \<lparr>pct = \<lparr>p_user = Fin 0, p_system = Fin 0, p_idle = Fin 0, p_iowait = Fin 0, p_steal = Fin 0, p_softirq = Fin 0\<rparr>,
      prev_stat = CpuStatRaw_zero\<rparr>"

text \<open>The eight extractions from the rest of the \<open>cpu\<close> line.\<close>

definition read_cpu_fields :: "string \<Rightarrow> CpuStatRaw \<Rightarrow> CpuStatRaw" where
  "read_cpu_fields s r =
     (let ls = istringstream s;
          (v1, ls) = read_u64 ls (user r);
          (v2, ls) = read_u64 ls (nice r);
          (v3, ls) = read_u64 ls (system r);
          (v4, ls) = read_u64 ls (idle r);
          (v5, ls) = read_u64 ls (iowait r);
          (v6, ls) = read_u64 ls (irq r);
          (v7, ls) = read_u64 ls (softirq r);
          (v8, ls) = read_u64 ls (steal r)
      in \<lparr>user = v1, nice = v2, system = v3, idle = v4, iowait = v5, irq = v6, softirq = v7, steal = v8\<rparr>)"

text \<open>The line loop: lines that do not start with \<open>"cpu "\<close> are skipped, the first that does ends it.\<close>

fun scan_cpu_line :: "string list \<Rightarrow> CpuStatRaw \<Rightarrow> CpuStatRaw" where
  "scan_cpu_line [] r = r"
| "scan_cpu_line (line # lines) r =
     (if \<not> starts_with ''cpu '' line then scan_cpu_line lines r
      else read_cpu_fields (drop 4 line) r)"

definition CpuStat_Init :: "file_system \<Rightarrow> CpuStatMonitor \<Rightarrow> CpuStatMonitor" where
  "CpuStat_Init fs m =
     m\<lparr>prev_stat := scan_cpu_line (getlines (ReadFile fs ''/proc/stat'')) (prev_stat m)\<rparr>"

text \<open>The lambda \<open>calc\<close>; the difference is taken on \<open>int64_t\<close>.\<close>

definition calc_pct :: "u64 \<Rightarrow> u64 \<Rightarrow> u64 \<Rightarrow> double" where
  "calc_pct total_delta val prev =
     (let d = val - prev
      in if sint d < 0 then Fin 0 else ddiv (dmul (Fin 100) (of_i64 d)) (of_u64 total_delta))"

definition CpuStat_Collect :: "file_system \<Rightarrow> CpuStatMonitor \<Rightarrow> CpuStatMonitor" where
  "CpuStat_Collect fs m =
     (let cur = scan_cpu_line (getlines (ReadFile fs ''/proc/stat'')) CpuStatRaw_zero;
          prev = prev_stat m;
          total_delta = cpu_total cur - cpu_total prev
      in if total_delta = 0 then m
         else \<lparr>pct = \<lparr>p_user = calc_pct total_delta (user cur) (user prev),
                      p_system = calc_pct total_delta (system cur) (system prev),
                      p_idle = calc_pct total_delta (idle cur) (idle prev),
                      p_iowait = calc_pct total_delta (iowait cur) (iowait prev),
                      p_steal = calc_pct total_delta (steal cur) (steal prev),
                      p_softirq = calc_pct total_delta (softirq cur) (softirq prev)\<rparr>,
               prev_stat = cur\<rparr>)"

section \<open>Reading the counters back\<close>

text \<open>The \<open>cpu\<close> line the kernel prints: the eight counters, then whatever follows them.\<close>

definition cpu_fields :: "CpuStatRaw \<Rightarrow> u64 list" where
  "cpu_fields r = [user r, nice r, system r, idle r, iowait r, irq r, softirq r, steal r]"

definition cpu_line :: "CpuStatRaw \<Rightarrow> string \<Rightarrow> string" where
  "cpu_line r extra =
     ''cpu '' @ concat (map (\<lambda>w. CHR '' '' # show_dec (uint w)) (cpu_fields r)) @ extra"

lemma read_cpu_fields_line:
  assumes "no_digit_ahead extra"
  shows "read_cpu_fields (drop 4 (cpu_line r extra)) old = r"
  using assms
  by (simp add: read_cpu_fields_def cpu_line_def cpu_fields_def istringstream_def read_u64_field is_digit_def)

lemma scan_cpu_line_found:
  assumes "list_all (\<lambda>l. \<not> starts_with ''cpu '' l) pre" and "no_digit_ahead extra"
  shows "scan_cpu_line (pre @ cpu_line r extra # post) old = r"
  using assms(1)
proof (induction pre)
  case Nil
  have "starts_with ''cpu '' (cpu_line r extra)" by (simp add: starts_with_def cpu_line_def)
  then show ?case using read_cpu_fields_line [OF assms(2), of r old] by simp
qed simp

definition stat_shows :: "file_system \<Rightarrow> CpuStatRaw \<Rightarrow> bool" where
  "stat_shows fs r \<longleftrightarrow> (\<exists>pre extra post.
     fs ''/proc/stat'' = Some (unlines (pre @ cpu_line r extra # post)) \<and>
     list_all (\<lambda>l. newline \<notin> set l) (pre @ cpu_line r extra # post) \<and>
     list_all (\<lambda>l. \<not> starts_with ''cpu '' l) pre \<and> no_digit_ahead extra)"

lemma scan_stat_shows:
  assumes "stat_shows fs r"
  shows "scan_cpu_line (getlines (ReadFile fs ''/proc/stat'')) old = r"
  using assms unfolding stat_shows_def ReadFile_def
  by (auto simp: getlines_unlines scan_cpu_line_found)

section \<open>The percentages\<close>

text \<open>
  The counters advance: none goes back, and together they move by less than \<open>2 ^ 46\<close> ticks, so
  that every product in the percentage is an exact \<open>double\<close>. The totals themselves may wrap.
\<close>

definition cpu_moved :: "CpuStatRaw \<Rightarrow> CpuStatRaw \<Rightarrow> int" where
  "cpu_moved prev cur = sum_list (map uint (cpu_fields cur)) - sum_list (map uint (cpu_fields prev))"

definition cpu_advance :: "CpuStatRaw \<Rightarrow> CpuStatRaw \<Rightarrow> bool" where
  "cpu_advance prev cur \<longleftrightarrow>
     list_all2 (\<lambda>p c. p \<le> c) (cpu_fields prev) (cpu_fields cur) \<and>
     0 < cpu_moved prev cur \<and> cpu_moved prev cur < 2 ^ 46"

lemma total_delta_exact:
  assumes "0 \<le> cpu_moved prev cur" and "cpu_moved prev cur < 2 ^ 64"
  shows "uint (cpu_total cur - cpu_total prev) = cpu_moved prev cur"
proof -
  have "cpu_total cur - cpu_total prev = word_of_int (cpu_moved prev cur)"
    by (simp add: cpu_total_def cpu_moved_def cpu_fields_def algebra_simps)
  with assms show ?thesis by (simp add: uint_word_of_int_eq take_bit_int_eq_self)
qed

lemma counter_delta:
  assumes "(p::u64) \<le> c" and "uint c - uint p < 2 ^ 63"
  shows "sint (c - p) = uint c - uint p"
proof -
  have d: "uint (c - p) = uint c - uint p"
    using assms(1) by (simp add: uint_minus_simple_alt word_le_def)
  with assms show ?thesis
    by (simp add: sint_uint signed_take_bit_int_eq_self word_le_def)
qed

lemma calc_pct_exact:
  assumes "p \<le> c" and D: "uint c - uint p = D" and T: "uint t = T" and "D \<le> T" and "T < 2 ^ 46" and "0 < T"
  shows "calc_pct t c p = rnd (100 * of_int D / of_int T)"
proof -
  have d0: "0 \<le> D" using assms(1) D by (simp add: word_le_def)
  have s: "sint (c - p) = D" using assms counter_delta [of p c] by auto
  have "rnd (of_int D) = Fin (of_int D)" "rnd (of_int T) = Fin (of_int T)"
    using assms d0 by (intro rnd_of_int; simp)+
  moreover have "rnd (of_int (100 * D)) = Fin (of_int (100 * D))"
    using assms d0 by (intro rnd_of_int) simp
  ultimately show ?thesis
    using assms d0 by (simp only: calc_pct_def of_i64_def of_u64_def s T Let_def) simp
qed

text \<open>The rounded percentage of a part of a whole.\<close>

definition pct_of :: "int \<Rightarrow> int \<Rightarrow> double" where
  "pct_of D T = rnd (100 * of_int D / of_int T)"

lemma pct_of_range:
  assumes "0 \<le> D" and "D \<le> T" and "0 < T"
  shows "pct_ok (pct_of D T)"
proof -
  have "0 \<le> 100 * rat_of_int D / of_int T" and "100 * rat_of_int D / of_int T \<le> 100"
    using assms by (simp_all add: divide_le_eq)
  then show ?thesis unfolding pct_ok_def pct_of_def
    by (intro conjI rnd_ge rnd_le) simp_all
qed

lemma pct_of_simps [simp]: "pct_of 0 T = Fin 0" "0 < T \<Longrightarrow> pct_of T T = Fin 100"
  by (simp_all add: pct_of_def)

section \<open>Collect against its specification\<close>

text \<open>The percentages a sample should report: each counter's share of the ticks since the last one.\<close>

definition pct_between :: "CpuStatRaw \<Rightarrow> CpuStatRaw \<Rightarrow> CpuStatPct" where
  "pct_between prev cur =
     (let share = (\<lambda>f. pct_of (uint (f cur :: u64) - uint (f prev :: u64)) (cpu_moved prev cur))
      in \<lparr>p_user = share user, p_system = share system, p_idle = share idle,
          p_iowait = share iowait, p_steal = share steal, p_softirq = share softirq\<rparr>)"

definition pct_values :: "CpuStatPct \<Rightarrow> double list" where
  "pct_values p = [p_user p, p_system p, p_idle p, p_iowait p, p_steal p, p_softirq p]"

lemma cpu_share_bounds:
  assumes "cpu_advance prev cur"
  shows "list_all (\<lambda>f. f prev \<le> f cur \<and> 0 \<le> uint (f cur) - uint (f prev) \<and>
    uint (f cur) - uint (f prev) \<le> cpu_moved prev cur) [user, system, idle, iowait, steal, softirq]"
  using assms by (simp add: cpu_advance_def cpu_moved_def cpu_fields_def word_le_def)

lemma pct_between_ok:
  assumes "cpu_advance prev cur"
  shows "list_all pct_ok (pct_values (pct_between prev cur))"
proof -
  have "0 < cpu_moved prev cur" using assms by (simp add: cpu_advance_def)
  with cpu_share_bounds [OF assms] show ?thesis
    by (simp add: pct_values_def pct_between_def Let_def pct_of_range)
qed

lemma collect_advance:
  assumes "stat_shows fs cur" and adv: "cpu_advance (prev_stat m) cur"
  shows "CpuStat_Collect fs m = \<lparr>pct = pct_between (prev_stat m) cur, prev_stat = cur\<rparr>"
proof -
  let ?t = "cpu_total cur - cpu_total (prev_stat m)" and ?T = "cpu_moved (prev_stat m) cur"
  have T: "0 < ?T" "?T < 2 ^ 46" using adv by (simp_all add: cpu_advance_def)
  have t: "uint ?t = ?T" using T by (intro total_delta_exact) auto
  then have "?t \<noteq> 0" using T by auto
  moreover have "calc_pct ?t (f cur) (f (prev_stat m)) =
      pct_of (uint (f cur) - uint (f (prev_stat m))) ?T"
    if "f \<in> set [user, system, idle, iowait, steal, softirq]" for f
  proof -
    from that cpu_share_bounds [OF adv] have "f (prev_stat m) \<le> f cur"
      and "uint (f cur) - uint (f (prev_stat m)) \<le> ?T" by (auto simp: list_all_iff)
    with t T show ?thesis unfolding pct_of_def by (intro calc_pct_exact) auto
  qed
  ultimately show ?thesis
    unfolding CpuStat_Collect_def scan_stat_shows [OF assms(1)] Let_def pct_between_def
    by (auto simp: Let_def)
qed

lemma init_stat_shows: "stat_shows fs r \<Longrightarrow> prev_stat (CpuStat_Init fs m) = r"
  by (simp add: CpuStat_Init_def scan_stat_shows)

text \<open>A run of samples, each an advance over the one before it.\<close>

fun cpu_chain :: "CpuStatRaw \<Rightarrow> CpuStatRaw list \<Rightarrow> bool" where
  "cpu_chain r [] = True"
| "cpu_chain r (r' # rs) \<longleftrightarrow> cpu_advance r r' \<and> cpu_chain r' rs"

lemma collect_chain:
  assumes "list_all2 stat_shows fss rs" and "cpu_chain (prev_stat m) rs"
  shows "prev_stat (fold CpuStat_Collect fss m) = last (prev_stat m # rs)"
  using assms
proof (induction fss rs arbitrary: m rule: list_all2_induct)
  case (Cons fs fss r rs)
  then show ?case by (simp add: collect_advance split: list.splits)
qed simp

text \<open>
  C20: After \<open>Init\<close> and any number of samples of advancing kernel counters, \<open>Collect\<close> reports
  for user, system, idle, iowait, steal and softirq the correctly rounded share of the ticks
  since the previous sample, each of them a number from 0 to 100. The 64-bit totals may wrap.
\<close>

theorem cpu_session_percentages:
  assumes "stat_shows fs0 r0" and "list_all2 stat_shows fss rs" and "cpu_chain r0 rs"
    and "stat_shows fs cur" and "cpu_advance (last (r0 # rs)) cur"
  shows "pct (CpuStat_Collect fs (fold CpuStat_Collect fss (CpuStat_Init fs0 m))) =
      pct_between (last (r0 # rs)) cur \<and>
    list_all pct_ok (pct_values (pct_between (last (r0 # rs)) cur))"
proof -
  have "prev_stat (fold CpuStat_Collect fss (CpuStat_Init fs0 m)) = last (r0 # rs)"
    using collect_chain [of fss rs "CpuStat_Init fs0 m"] assms(1-3) by (simp add: init_stat_shows)
  with assms(4,5) show ?thesis by (simp add: collect_advance pct_between_ok)
qed

definition cpu_sample :: "u64 \<Rightarrow> u64 \<Rightarrow> u64 \<Rightarrow> CpuStatRaw" where
  "cpu_sample u s i = CpuStatRaw_zero\<lparr>user := u, system := s, idle := i\<rparr>"

definition proc_stat :: "CpuStatRaw \<Rightarrow> file_system" where
  "proc_stat r path = (if path = ''/proc/stat'' then Some (unlines [cpu_line r '' 0 0'', ''intr 7'']) else None)"

lemma newline_cpu_line: "newline \<notin> set extra \<Longrightarrow> newline \<notin> set (cpu_line r extra)"
  by (simp add: cpu_line_def cpu_fields_def)

lemma stat_shows_proc_stat: "stat_shows (proc_stat r) r"
  unfolding stat_shows_def
  by (rule exI [of _ "[]"], rule exI [of _ "'' 0 0''"], rule exI [of _ "[''intr 7'']"])
     (simp add: proc_stat_def newline_cpu_line is_digit_def)

theorem cpu_session_percentages_witness:
  "pct (CpuStat_Collect (proc_stat (cpu_sample 30 20 250))
      (fold CpuStat_Collect [proc_stat (cpu_sample 20 10 200)]
        (CpuStat_Init (proc_stat (cpu_sample 10 10 100)) CpuStatMonitor_new))) =
    pct_between (cpu_sample 20 10 200) (cpu_sample 30 20 250)"
  using cpu_session_percentages [of "proc_stat (cpu_sample 10 10 100)" "cpu_sample 10 10 100"
      "[proc_stat (cpu_sample 20 10 200)]" "[cpu_sample 20 10 200]" "proc_stat (cpu_sample 30 20 250)"
      "cpu_sample 30 20 250" CpuStatMonitor_new]
  by (simp add: stat_shows_proc_stat cpu_advance_def cpu_moved_def cpu_fields_def cpu_sample_def
      CpuStatRaw_zero_def)

text \<open>
  When only the idle counter moved, \<open>Collect\<close> reports exactly 100 percent idle and exactly
  zero everywhere else.
\<close>

lemma cpu_idle_exact:
  assumes "stat_shows fs (prev_stat m\<lparr>idle := i\<rparr>)" and "idle (prev_stat m) < i"
    and "uint i - uint (idle (prev_stat m)) < 2 ^ 46"
  shows "pct (CpuStat_Collect fs m) =
    \<lparr>p_user = Fin 0, p_system = Fin 0, p_idle = Fin 100, p_iowait = Fin 0, p_steal = Fin 0, p_softirq = Fin 0\<rparr>"
proof -
  have moved: "cpu_moved (prev_stat m) (prev_stat m\<lparr>idle := i\<rparr>) = uint i - uint (idle (prev_stat m))"
    by (simp add: cpu_moved_def cpu_fields_def)
  have "cpu_advance (prev_stat m) (prev_stat m\<lparr>idle := i\<rparr>)"
    using assms(2,3) by (simp add: cpu_advance_def moved) (simp add: cpu_fields_def word_less_def word_le_def)
  from collect_advance [OF assms(1) this] show ?thesis
    using assms(2) by (simp add: pct_between_def moved word_less_def)
qed

section \<open>Unreadable counters\<close>

lemma calc_pct_back_to_zero: "uint p < 2 ^ 63 \<Longrightarrow> t \<noteq> 0 \<Longrightarrow> calc_pct t 0 p = Fin 0"
proof (cases "p = 0")
  case True
  assume "t \<noteq> 0"
  then have "1 \<le> uint t" by (metis uint_0_iff uint_ge_0 int_one_le_iff_zero_less order_le_less)
  then have "1 \<le> rat_of_int (uint t)" by (simp only: of_int_1_le_iff)
  then have "dle (Fin 1) (of_u64 t)"
    unfolding of_u64_def using is_double_of_int [of 1] by (intro rnd_ge) simp_all
  with True show ?thesis by (cases "of_u64 t") (auto simp: calc_pct_def of_i64_def)
next
  case False
  assume p: "uint p < 2 ^ 63"
  have "0 < uint p" using False by (metis uint_0_iff uint_ge_0 order_le_less)
  then have "sint (word_of_int (- uint p) :: u64) = - uint p"
    unfolding sint_sbintrunc' using p by (intro signed_take_bit_int_eq_self) simp_all
  then have "sint (- p) = - uint p" by simp
  with \<open>0 < uint p\<close> show ?thesis by (simp add: calc_pct_def)
qed

text \<open>
  When \<open>/proc/stat\<close> cannot be read the sample is all zeros, which the code does not tell from a
  real one: every percentage becomes 0, idle included.
\<close>

lemma collect_unreadable:
  assumes "fs ''/proc/stat'' = None" and "list_all (\<lambda>w. uint w < 2 ^ 63) (cpu_fields (prev_stat m))"
    and "cpu_total (prev_stat m) \<noteq> 0"
  shows "CpuStat_Collect fs m =
    \<lparr>pct = \<lparr>p_user = Fin 0, p_system = Fin 0, p_idle = Fin 0, p_iowait = Fin 0, p_steal = Fin 0, p_softirq = Fin 0\<rparr>,
     prev_stat = CpuStatRaw_zero\<rparr>"
proof -
  have "scan_cpu_line (getlines (ReadFile fs ''/proc/stat'')) CpuStatRaw_zero = CpuStatRaw_zero"
    using assms(1) by (simp add: ReadFile_def)
  moreover have "cpu_total CpuStatRaw_zero = 0" by (simp add: cpu_total_def CpuStatRaw_zero_def)
  with assms(3) have "cpu_total CpuStatRaw_zero - cpu_total (prev_stat m) \<noteq> 0" by simp
  ultimately show ?thesis
    using assms(2) by (simp add: CpuStat_Collect_def Let_def cpu_fields_def calc_pct_back_to_zero)
       (simp add: CpuStatRaw_zero_def calc_pct_back_to_zero)
qed

section \<open>The collectors implement the interface\<close>

definition cpu_load_wf :: "CpuLoadMonitor \<Rightarrow> bool" where
  "cpu_load_wf m \<longleftrightarrow> 1 \<le> sint (nr_cores m) \<and> is_double (load_1m m) \<and> is_double (load_5m m) \<and> is_double (load_15m m)"

definition cpu_stat_wf :: "CpuStatMonitor \<Rightarrow> bool" where
  "cpu_stat_wf m \<longleftrightarrow> list_all is_double (pct_values (pct m))"

lemma is_double_max: "is_double (Fin max_double)" "is_double (Fin (- max_double))"
proof -
  have m: "max_double = of_int (2 ^ 53 - 1) * 2 powi 971" by (simp add: max_double_def)
  have "(2::rat) ^ 1024 = 2 ^ 53 * 2 ^ 971" by (simp flip: power_add)
  then have "max_double < 2 ^ 1024" by (simp add: max_double_def algebra_simps)
  moreover have "0 \<le> max_double" by (simp add: max_double_def)
  ultimately have "\<not> max_exceeded max_double" "\<not> max_exceeded (- max_double)"
    by (simp_all add: max_exceeded_iff)
  moreover have "representable max_double" by (rule representableI [OF m]) simp_all
  ultimately show "is_double (Fin max_double)" "is_double (Fin (- max_double))"
    by (simp_all add: is_double.simps representable_minus)
qed

lemma read_double_is_double:
  assumes "is_double old"
  shows "is_double (fst (read_double st old))"
proof -
  have "is_double (fst (case rnd x of PInf \<Rightarrow> (Fin max_double, a) | NInf \<Rightarrow> (Fin (- max_double), b)
      | d \<Rightarrow> (d, c)))" for x and a b c :: istream
    using is_double_rnd [of x] by (cases "rnd x") (simp_all add: is_double_max)
  with assms show ?thesis
    unfolding read_double_def
    by (auto simp: split_beta Let_def split: prod.splits bool.splits option.splits)
qed

lemma cpu_load_collect_wf: "cpu_load_wf m \<Longrightarrow> cpu_load_wf (CpuLoad_Collect fs m)"
  by (simp add: cpu_load_wf_def CpuLoad_Collect_def Let_def split_beta read_double_is_double)

lemma calc_pct_is_double [simp]: "is_double (calc_pct t c p)"
  by (simp add: calc_pct_def Let_def)

lemma cpu_stat_collect_wf: "cpu_stat_wf m \<Longrightarrow> cpu_stat_wf (CpuStat_Collect fs m)"
  by (simp add: cpu_stat_wf_def CpuStat_Collect_def Let_def pct_values_def)

lemma cpu_load_init_wf: "cpu_load_wf (CpuLoad_Init n CpuLoadMonitor_new)"
  by (auto simp: cpu_load_wf_def CpuLoad_Init_def CpuLoadMonitor_new_def Let_def)

lemma cpu_stat_init_wf: "cpu_stat_wf (CpuStat_Init fs CpuStatMonitor_new)"
  by (simp add: cpu_stat_wf_def CpuStat_Init_def CpuStatMonitor_new_def pct_values_def)

lemmas cpu_wf = cpu_load_init_wf cpu_load_collect_wf cpu_stat_init_wf cpu_stat_collect_wf

interpretation cload: total_monitor CpuLoadMonitor_new "\<lambda>e. CpuLoad_Init (env_nprocs e)"
  "\<lambda>e m. Inr (CpuLoad_Collect (env_fs e) m)" "\<lambda>m. m" cpu_load_wf
  by unfold_locales (auto simp: cpu_wf)

interpretation cstat: total_monitor CpuStatMonitor_new "\<lambda>e. CpuStat_Init (env_fs e)"
  "\<lambda>e m. Inr (CpuStat_Collect (env_fs e) m)" "\<lambda>m. m" cpu_stat_wf
  by unfold_locales (auto simp: cpu_wf)

end
