(* ===== verification/MemMonitor.thy ===== *)
theory MemMonitor
  imports MonitorInterface
begin

text \<open>
  The memory collector (\<open>src/worker/src/monitor/mem_monitor.cpp\<close>): \<open>/proc/meminfo\<close> is parsed
  into a hash map from keys to kB, then the fields of the object are computed in gigabytes.
  \<open>std::stoull\<close> may throw; the members are assigned only after the loop, so a throwing
  \<open>Collect\<close> leaves the object as it was. Reading the map with \<open>m[key]\<close> gives 0 for a missing key.
\<close>

record MemMonitor =
  total_gb :: double
  used_gb :: double
  free_gb :: double
  available_gb :: double
  cached_gb :: double
  buffers_gb :: double
  swap_total_gb :: double
  swap_used_gb :: double
  used_pct :: double

definition MemMonitor_new :: MemMonitor where
  "MemMonitor_new = \<lparr>total_gb = Fin 0, used_gb = Fin 0, free_gb = Fin 0, available_gb = Fin 0,
     cached_gb = Fin 0, buffers_gb = Fin 0, swap_total_gb = Fin 0, swap_used_gb = Fin 0, used_pct = Fin 0\<rparr>"

definition Mem_Init :: "MemMonitor \<Rightarrow> MemMonitor" where
  "Mem_Init m = m"

text \<open>One iteration of the line loop: \<open>None\<close> is a skipped line.\<close>

definition meminfo_line :: "string \<Rightarrow> (string \<times> u64) option res" where
  "meminfo_line line =
     (case find_char CHR '':'' line of
        None \<Rightarrow> Inr None
      | Some pos \<Rightarrow>
          let key = take pos line; val = drop (pos + 1) line
          in case str_find ''kB'' val of
               None \<Rightarrow> Inr None
             | Some k_pos \<Rightarrow> bind_res (stoull (take k_pos val)) (\<lambda>kb. Inr (Some (key, kb))))"

fun meminfo_lines :: "string list \<Rightarrow> (string \<times> u64) list \<Rightarrow> (string \<times> u64) list res" where
  "meminfo_lines [] m = Inr m"
| "meminfo_lines (line # lines) m =
     bind_res (meminfo_line line)
       (\<lambda>kv. meminfo_lines lines (case kv of None \<Rightarrow> m | Some (key, kb) \<Rightarrow> AList.update key kb m))"

text \<open>\<open>m[key]\<close> of a missing key inserts and reads 0.\<close>

definition lookup0 :: "(string \<times> u64) list \<Rightarrow> string \<Rightarrow> u64" where
  "lookup0 m k = (case map_of m k of None \<Rightarrow> 0 | Some v \<Rightarrow> v)"

definition to_gb :: "u64 \<Rightarrow> double" where
  "to_gb kb = ddiv (of_u64 kb) (dmul (Fin 1024) (Fin 1024))"

definition Mem_Collect :: "file_system \<Rightarrow> MemMonitor \<Rightarrow> MemMonitor res" where
  "Mem_Collect fs mm =
     bind_res (meminfo_lines (getlines (ReadFile fs ''/proc/meminfo'')) [])
       (\<lambda>m. let total = to_gb (lookup0 m ''MemTotal'');
                free = to_gb (lookup0 m ''MemFree'');
                cached = to_gb (lookup0 m ''Cached'');
                buffers = to_gb (lookup0 m ''Buffers'');
                used = dsub (dsub (dsub total free) cached) buffers
            in Inr \<lparr>total_gb = total, used_gb = used, free_gb = free,
                    available_gb = to_gb (lookup0 m ''MemAvailable''),
                    cached_gb = cached, buffers_gb = buffers,
                    swap_total_gb = to_gb (lookup0 m ''SwapTotal''),
                    swap_used_gb = to_gb (lookup0 m ''SwapTotal'' - lookup0 m ''SwapFree''),
                    used_pct = (if dlt (Fin 0) total then dmul (ddiv used total) (Fin 100) else Fin 0)\<rparr>)"

section \<open>What the kernel prints\<close>

text \<open>
  A line of \<open>/proc/meminfo\<close>: key, colon, padding, the value, and \<open>kB\<close> unless the entry counts
  pages.
\<close>

record mem_entry =
  me_key :: string
  me_pad :: nat
  me_kb :: u64
  me_unit :: bool

definition mem_entry_line :: "mem_entry \<Rightarrow> string" where
  "mem_entry_line e =
     me_key e @ CHR '':'' # (replicate (me_pad e) CHR '' '' @ show_dec (uint (me_kb e)) @
     (if me_unit e then '' kB'' else []))"

definition mem_entry_ok :: "mem_entry \<Rightarrow> bool" where
  "mem_entry_ok e \<longleftrightarrow> CHR '':'' \<notin> set (me_key e) \<and> newline \<notin> set (me_key e)"

definition mem_values :: "mem_entry list \<Rightarrow> (string \<times> u64) list" where
  "mem_values es = map (\<lambda>e. (me_key e, me_kb e)) (filter me_unit es)"

definition meminfo_shows :: "file_system \<Rightarrow> mem_entry list \<Rightarrow> bool" where
  "meminfo_shows fs es \<longleftrightarrow> fs ''/proc/meminfo'' = Some (unlines (map mem_entry_line es)) \<and>
     list_all mem_entry_ok es \<and> distinct (map me_key es)"

lemma letters_not_in_number:
  "0 \<le> n \<Longrightarrow> \<not> is_digit c \<Longrightarrow> c \<noteq> CHR '' '' \<Longrightarrow> c \<notin> set (replicate j CHR '' '' @ show_dec n)"
  using show_dec_digits [of n] by (auto simp: list_all_iff)

lemma find_kB:
  assumes "0 \<le> n"
  shows "str_find ''kB'' (replicate j CHR '' '' @ show_dec n @ '' kB'') = Some (j + length (show_dec n) + 1)"
    and "str_find ''kB'' (replicate j CHR '' '' @ show_dec n) = None"
proof -
  have k: "CHR ''k'' \<notin> set (replicate j CHR '' '' @ show_dec n)"
    using assms by (intro letters_not_in_number) (simp_all add: is_digit_def)
  then show "str_find ''kB'' (replicate j CHR '' '' @ show_dec n @ '' kB'') = Some (j + length (show_dec n) + 1)"
    using str_find_first [of "CHR ''k''" "replicate j CHR '' '' @ show_dec n @ '' ''" "''B''" "[]"] by simp
  show "str_find ''kB'' (replicate j CHR '' '' @ show_dec n) = None"
    using k unfolding str_find_None by (metis list.set_intros(1) set_mono_sublist subset_iff)
qed

lemma meminfo_entry_line:
  assumes "mem_entry_ok e"
  shows "meminfo_line (mem_entry_line e) = Inr (if me_unit e then Some (me_key e, me_kb e) else None)"
proof -
  let ?v = "replicate (me_pad e) CHR '' '' @ show_dec (uint (me_kb e)) @ (if me_unit e then '' kB'' else [])"
  have "find_char CHR '':'' (mem_entry_line e) = Some (length (me_key e))"
    using assms by (simp add: mem_entry_line_def mem_entry_ok_def find_char_append)
  moreover have "drop (length (me_key e) + 1) (mem_entry_line e) = ?v"
    and "take (length (me_key e)) (mem_entry_line e) = me_key e"
    by (simp_all add: mem_entry_line_def)
  moreover have "stoull (replicate (me_pad e) CHR '' '' @ show_dec (uint (me_kb e)) @ '' '') = Inr (me_kb e)"
    using stoull_show [of "replicate (me_pad e) CHR '' ''" "uint (me_kb e)" "'' ''"] uint_lt2p [of "me_kb e"]
    by (simp add: list_all_iff is_space_def is_digit_def)
  ultimately show ?thesis
    by (simp add: meminfo_line_def Let_def find_kB)
qed

lemma meminfo_lines_entries:
  assumes "list_all mem_entry_ok es" and "distinct (map fst m @ map me_key es)"
  shows "\<exists>m'. meminfo_lines (map mem_entry_line es) m = Inr m' \<and> map_of m' = map_of (m @ mem_values es)"
  using assms
proof (induction es arbitrary: m)
  case (Cons e es)
  show ?case
  proof (cases "me_unit e")
    case False
    with Cons show ?thesis by (simp add: meminfo_entry_line mem_values_def)
  next
    case True
    let ?m = "AList.update (me_key e) (me_kb e) m"
    have "me_key e \<notin> fst ` set m" using Cons.prems by auto
    then have upd: "?m = m @ [(me_key e, me_kb e)]" by (rule update_new)
    with Cons.prems have "distinct (map fst ?m @ map me_key es)" by auto
    with Cons.IH [of ?m] Cons.prems obtain m' where "meminfo_lines (map mem_entry_line es) ?m = Inr m'"
      "map_of m' = map_of (?m @ mem_values es)" by (metis list.pred_inject(2))
    with True Cons.prems upd show ?thesis by (simp add: meminfo_entry_line mem_values_def)
  qed
qed (simp add: mem_values_def)

lemma newline_mem_entry_line: "mem_entry_ok e \<Longrightarrow> newline \<notin> set (mem_entry_line e)"
  by (simp add: mem_entry_line_def mem_entry_ok_def)

lemma meminfo_shows_parse:
  assumes "meminfo_shows fs es"
  obtains m where "meminfo_lines (getlines (ReadFile fs ''/proc/meminfo'')) [] = Inr m"
    and "lookup0 m = lookup0 (mem_values es)"
proof -
  have "getlines (ReadFile fs ''/proc/meminfo'') = map mem_entry_line es"
    using assms by (simp add: meminfo_shows_def ReadFile_def getlines_unlines list_all_iff newline_mem_entry_line)
  with assms meminfo_lines_entries [of es "[]"] show thesis
    using that by (auto simp: meminfo_shows_def lookup0_def fun_eq_iff)
qed

section \<open>Exactness of the gigabytes\<close>

definition gb :: "int \<Rightarrow> double" where
  "gb kb = Fin (of_int kb / 2 ^ 20)"

lemma to_gb_exact: "uint kb \<le> 2 ^ 53 \<Longrightarrow> to_gb kb = gb (uint kb)"
  using rnd_of_int [of "uint kb"] rnd_dyadic [of "uint kb" 20]
  by (simp add: to_gb_def of_u64_def gb_def del: of_int_uint)

lemma dsub_gb:
  assumes "\<bar>a - b\<bar> \<le> 2 ^ 53"
  shows "dsub (gb a) (gb b) = gb (a - b)"
  using rnd_dyadic [OF assms, of 20] by (simp add: dsub_def gb_def diff_divide_distrib)

lemma gb_pct_ok:
  assumes "0 \<le> a" and "a \<le> t" and "0 < t"
  shows "pct_ok (dmul (ddiv (gb a) (gb t)) (Fin 100))"
proof -
  have "0 \<le> rat_of_int a / of_int t" "rat_of_int a / of_int t \<le> 1" using assms by simp_all
  then obtain q where q: "rnd (of_int a / of_int t) = Fin q" "0 \<le> q" "q \<le> 1"
    using rnd_interval [of 0 1] is_double_of_int [of 1] by (metis is_double_0 of_int_1 abs_one one_le_power one_le_numeral)
  then have "dmul (ddiv (gb a) (gb t)) (Fin 100) = rnd (q * 100)" using assms by (simp add: gb_def)
  with q show ?thesis unfolding pct_ok_def by (auto intro!: rnd_ge rnd_le)
qed

section \<open>Collect against its specification\<close>

lemma collect_memory:
  assumes "meminfo_shows fs es"
    and kb: "uint (lookup0 (mem_values es) ''MemTotal'') = t" "uint (lookup0 (mem_values es) ''MemFree'') = f"
      "uint (lookup0 (mem_values es) ''Cached'') = c" "uint (lookup0 (mem_values es) ''Buffers'') = b"
    and "f + c + b \<le> t" and "t \<le> 2 ^ 53"
  obtains m' where "Mem_Collect fs mm = Inr m'" "total_gb m' = gb t" "free_gb m' = gb f"
    "used_gb m' = gb (t - f - c - b)" "used_pct m' = (if 0 < t then dmul (ddiv (gb (t - f - c - b)) (gb t)) (Fin 100) else Fin 0)"
proof -
  have nonneg: "0 \<le> t" "0 \<le> f" "0 \<le> c" "0 \<le> b" by (simp_all add: kb [symmetric])
  obtain m where m: "meminfo_lines (getlines (ReadFile fs ''/proc/meminfo'')) [] = Inr m"
    "lookup0 m = lookup0 (mem_values es)" using assms(1) by (rule meminfo_shows_parse)
  have to_gb: "to_gb (lookup0 m ''MemTotal'') = gb t" "to_gb (lookup0 m ''MemFree'') = gb f"
    "to_gb (lookup0 m ''Cached'') = gb c" "to_gb (lookup0 m ''Buffers'') = gb b"
    unfolding m(2) using to_gb_exact kb assms(6,7) nonneg by auto
  have used: "dsub (dsub (dsub (gb t) (gb f)) (gb c)) (gb b) = gb (t - f - c - b)"
    using assms(6,7) nonneg by (simp add: dsub_gb)
  have "dlt (Fin 0) (gb t) = (0 < t)" by (simp add: gb_def)
  with m(1) that to_gb used show thesis by (simp add: Mem_Collect_def Let_def)
qed

text \<open>
  C21: On the text the kernel prints, \<open>Collect\<close> returns; total, free and used memory are exactly
  the kB values divided by \<open>2 ^ 20\<close>, no rounding anywhere, used being total less free, cached and
  buffers, and the used percentage is a number from 0 to 100.
\<close>

theorem mem_collect_exact:
  assumes "meminfo_shows fs es"
    and "uint (lookup0 (mem_values es) ''MemTotal'') = t" and "uint (lookup0 (mem_values es) ''MemFree'') = f"
    and "uint (lookup0 (mem_values es) ''Cached'') = c" and "uint (lookup0 (mem_values es) ''Buffers'') = b"
    and "f + c + b \<le> t" and "t \<le> 2 ^ 53"
  shows "\<exists>m'. Mem_Collect fs mm = Inr m' \<and> total_gb m' = gb t \<and> free_gb m' = gb f \<and>
    used_gb m' = gb (t - f - c - b) \<and> pct_ok (used_pct m')"
proof -
  from assms obtain m' where m': "Mem_Collect fs mm = Inr m'" "total_gb m' = gb t" "free_gb m' = gb f"
    "used_gb m' = gb (t - f - c - b)"
    "used_pct m' = (if 0 < t then dmul (ddiv (gb (t - f - c - b)) (gb t)) (Fin 100) else Fin 0)"
    by (rule collect_memory)
  have "0 \<le> f" "0 \<le> c" "0 \<le> b" using assms(3-5) by auto
  with m'(5) assms(6) have "pct_ok (used_pct m')"
    using gb_pct_ok [of "t - f - c - b" t] by (auto simp: pct_ok_def)
  with m' show ?thesis by blast
qed

definition demo_meminfo :: "mem_entry list" where
  "demo_meminfo =
     [\<lparr>me_key = ''MemTotal'', me_pad = 7, me_kb = 16316412, me_unit = True\<rparr>,
      \<lparr>me_key = ''MemFree'', me_pad = 8, me_kb = 4000000, me_unit = True\<rparr>,
      \<lparr>me_key = ''Buffers'', me_pad = 9, me_kb = 300000, me_unit = True\<rparr>,
      \<lparr>me_key = ''Cached'', me_pad = 9, me_kb = 5000000, me_unit = True\<rparr>,
      \<lparr>me_key = ''HugePages_Total'', me_pad = 7, me_kb = 0, me_unit = False\<rparr>]"

definition meminfo_file :: "mem_entry list \<Rightarrow> file_system" where
  "meminfo_file es path =
     (if path = ''/proc/meminfo'' then Some (unlines (map mem_entry_line es)) else None)"

theorem mem_collect_exact_witness:
  "\<exists>m'. Mem_Collect (meminfo_file demo_meminfo) MemMonitor_new = Inr m' \<and>
    total_gb m' = gb 16316412 \<and> free_gb m' = gb 4000000 \<and> used_gb m' = gb 7016412 \<and> pct_ok (used_pct m')"
  using mem_collect_exact [of "meminfo_file demo_meminfo" demo_meminfo 16316412 4000000 5000000 300000 MemMonitor_new]
  by (simp add: meminfo_shows_def meminfo_file_def demo_meminfo_def mem_entry_ok_def mem_values_def lookup0_def)

section \<open>Exceptions\<close>

lemma meminfo_lines_raise:
  "(\<exists>e. meminfo_lines ls m = Inl e) \<longleftrightarrow> (\<exists>l \<in> set ls. \<exists>e. meminfo_line l = Inl e)"
proof (induction ls arbitrary: m)
  case (Cons l ls)
  then show ?case by (cases "meminfo_line l") auto
qed simp

text \<open>
  C22: \<open>Collect\<close> of the memory collector raises an exception exactly when some line of
  \<open>/proc/meminfo\<close> has a colon and then a \<open>kB\<close> in front of which \<open>std::stoull\<close> finds no number or one
  beyond 64 bits; in every other case, the unreadable file included, it returns.
\<close>

theorem mem_collect_raises_iff:
  "(\<exists>e. Mem_Collect fs mm = Inl e) \<longleftrightarrow>
    (\<exists>l \<in> set (getlines (ReadFile fs ''/proc/meminfo'')). \<exists>key val n e. l = key @ CHR '':'' # val \<and>
       CHR '':'' \<notin> set key \<and> str_find ''kB'' val = Some n \<and> stoull (take n val) = Inl e)"
proof -
  have line: "(\<exists>e. meminfo_line l = Inl e) \<longleftrightarrow> (\<exists>key val n e. l = key @ CHR '':'' # val \<and>
       CHR '':'' \<notin> set key \<and> str_find ''kB'' val = Some n \<and> stoull (take n val) = Inl e)" for l
  proof (cases "find_char CHR '':'' l")
    case None
    then have "meminfo_line l = Inr None" "CHR '':'' \<notin> set l"
      by (simp_all add: meminfo_line_def flip: find_char_None)
    then show ?thesis by auto
  next
    case (Some i)
    then have l: "l = take i l @ CHR '':'' # drop (i + 1) l" "CHR '':'' \<notin> set (take i l)"
      using id_take_nth_drop [of i l] by (auto simp: find_char_Some)
    have uniq: "key = take i l \<and> val = drop (i + 1) l"
      if "l = key @ CHR '':'' # val" "CHR '':'' \<notin> set key" for key val
      using Some that find_char_append [of "CHR '':''" key val] by auto
    have "(\<exists>e. meminfo_line l = Inl e) \<longleftrightarrow>
        (\<exists>n e. str_find ''kB'' (drop (i + 1) l) = Some n \<and> stoull (take n (drop (i + 1) l)) = Inl e)"
      using Some by (auto simp: meminfo_line_def Let_def bind_res_def split: option.splits sum.splits)
    with l uniq show ?thesis by metis
  qed
  have "(\<exists>e. Mem_Collect fs mm = Inl e) \<longleftrightarrow>
      (\<exists>e. meminfo_lines (getlines (ReadFile fs ''/proc/meminfo'')) [] = Inl e)"
    by (auto simp: Mem_Collect_def bind_res_def Let_def split: sum.splits)
  then show ?thesis by (simp only: meminfo_lines_raise line)
qed

section \<open>The collector implements the interface\<close>

definition mem_wf :: "MemMonitor \<Rightarrow> bool" where
  "mem_wf m \<longleftrightarrow> list_all is_double [total_gb m, used_gb m, free_gb m, available_gb m, cached_gb m,
     buffers_gb m, swap_total_gb m, swap_used_gb m, used_pct m]"

lemma mem_collect_wf: "Mem_Collect fs m = Inr m' \<Longrightarrow> mem_wf m'"
  by (auto simp: Mem_Collect_def Let_def mem_wf_def to_gb_def)

lemma mem_init_wf: "mem_wf (Mem_Init MemMonitor_new)"
  by (simp add: mem_wf_def Mem_Init_def MemMonitor_new_def)

interpretation memm: monitor_interface MemMonitor_new "\<lambda>e. Mem_Init" "\<lambda>e. Mem_Collect (env_fs e)" "\<lambda>m. m" mem_wf
  by unfold_locales (auto intro: mem_init_wf dest: mem_collect_wf)

end
