(* ===== verification/DiskMonitor.thy ===== *)
theory DiskMonitor
  imports MonitorInterface
begin

text \<open>
  The disk collector (\<open>src/worker/src/monitor/disk_monitor.cpp\<close>): \<open>/proc/diskstats\<close> is parsed
  into a hash map from device to counters, and every device that was in the previous map too is
  reported by the differences of its counters. The file-scope \<open>prev_map\<close> is part of the state.
  Counters are 64-bit and their differences wrap.
\<close>

record DiskRaw =
  reads_done :: u64
  writes_done :: u64
  read_sectors :: u64
  write_sectors :: u64
  io_ticks :: u64

definition DiskRaw_zero :: DiskRaw where
  "DiskRaw_zero = \<lparr>reads_done = 0, writes_done = 0, read_sectors = 0, write_sectors = 0, io_ticks = 0\<rparr>"

record DiskStats =
  ds_device :: string
  ds_read_mbps :: double
  ds_write_mbps :: double
  ds_iops :: double
  ds_io_latency_ms :: double

record DiskMonitor =
  disks :: "DiskStats list"
  prev_map :: "(string \<times> DiskRaw) list"

definition DiskMonitor_new :: DiskMonitor where
  "DiskMonitor_new = \<lparr>disks = [], prev_map = []\<rparr>"

text \<open>
  \<open>ParseDiskStatsLine\<close>: the extractions in order, \<open>None\<close> for \<open>false\<close>. The locals that are read
  but not used start from an unspecified value, here 0.
\<close>

definition ParseDiskStatsLine :: "string \<Rightarrow> (string \<times> DiskRaw) option" where
  "ParseDiskStatsLine line =
     (let ls = istringstream line;
          (major, ls) = read_i32 ls 0;
          (minor, ls) = read_i32 ls 0;
          (dev, ls) = read_word ls [];
          (rd, ls) = read_u64 ls 0;
          (reads_merged, ls) = read_u64 ls 0;
          (rs, ls) = read_u64 ls 0;
          (read_time_ms, ls) = read_u64 ls 0;
          (wd, ls) = read_u64 ls 0;
          (writes_merged, ls) = read_u64 ls 0;
          (ws, ls) = read_u64 ls 0;
          (write_time_ms, ls) = read_u64 ls 0;
          (ios_in_progress, ls) = read_u64 ls 0;
          (ticks, ls) = read_u64 ls 0
      in if is_fail ls then None
         else Some (dev, \<lparr>reads_done = rd, writes_done = wd, read_sectors = rs, write_sectors = ws, io_ticks = ticks\<rparr>))"

text \<open>The condition on the device name, as \<open>Collect\<close> writes it.\<close>

definition disk_skipped :: "string \<Rightarrow> bool" where
  "disk_skipped dev \<longleftrightarrow> dev = [] \<or> str_find ''loop'' dev = Some 0 \<or> str_find ''ram'' dev = Some 0"

fun disk_lines :: "string list \<Rightarrow> (string \<times> DiskRaw) list \<Rightarrow> (string \<times> DiskRaw) list" where
  "disk_lines [] m = m"
| "disk_lines (line # lines) m =
     (case ParseDiskStatsLine line of
        None \<Rightarrow> disk_lines lines m
      | Some (dev, r) \<Rightarrow> if disk_skipped dev then disk_lines lines m
                        else disk_lines lines (AList.update dev r m))"

definition Disk_Init :: "file_system \<Rightarrow> DiskMonitor \<Rightarrow> DiskMonitor" where
  "Disk_Init fs m = m\<lparr>prev_map := disk_lines (getlines (ReadFile fs ''/proc/diskstats'')) (prev_map m)\<rparr>"

definition disk_delta :: "string \<Rightarrow> DiskRaw \<Rightarrow> DiskRaw \<Rightarrow> DiskStats" where
  "disk_delta dev prev cur =
     \<lparr>ds_device = dev,
      ds_read_mbps = ddiv (dmul (of_u64 (read_sectors cur - read_sectors prev)) (Fin 512)) (Fin (1024 * 1024)),
      ds_write_mbps = ddiv (dmul (of_u64 (write_sectors cur - write_sectors prev)) (Fin 512)) (Fin (1024 * 1024)),
      ds_iops = of_u64 ((reads_done cur + writes_done cur) - (reads_done prev + writes_done prev)),
      ds_io_latency_ms = dmul (of_u64 (io_ticks cur - io_ticks prev)) (Fin 1)\<rparr>"

fun disk_report :: "(string \<times> DiskRaw) list \<Rightarrow> (string \<times> DiskRaw) list \<Rightarrow> DiskStats list" where
  "disk_report prev [] = []"
| "disk_report prev ((dev, cur) # rest) =
     (case map_of prev dev of
        None \<Rightarrow> disk_report prev rest
      | Some p \<Rightarrow> disk_delta dev p cur # disk_report prev rest)"

definition Disk_Collect :: "(string list \<Rightarrow> string list) \<Rightarrow> file_system \<Rightarrow> DiskMonitor \<Rightarrow> DiskMonitor" where
  "Disk_Collect ord fs m =
     (let cur_map = disk_lines (getlines (ReadFile fs ''/proc/diskstats'')) []
      in \<lparr>disks = disk_report (prev_map m) (iterate_map ord cur_map), prev_map = cur_map\<rparr>)"

section \<open>Disk_Collect is a counter sampler\<close>

lemma disk_lines_distinct: "distinct (map fst m) \<Longrightarrow> distinct (map fst (disk_lines ls m))"
  by (induction ls m rule: disk_lines.induct) (auto split: option.splits simp: distinct_update)

lemma disk_report_deltas: "disk_report prev xs = sample_deltas disk_delta (\<lambda>_. True) prev xs"
  by (induction prev xs rule: disk_report.induct) (auto split: option.splits)

abbreviation disk_sample :: "env \<Rightarrow> (string \<times> DiskRaw) list" where
  "disk_sample e \<equiv> disk_lines (getlines (ReadFile (env_fs e) ''/proc/diskstats'')) []"

interpretation diskc: counter_sampler disk_sample prev_map disks
  "\<lambda>e. Disk_Collect (env_disk_ord e) (env_fs e)" disk_delta "\<lambda>_. True" ds_device
  "\<lambda>e. iteration_order (env_disk_ord e)"
proof (unfold_locales, goal_cases)
  case (1 e)
  show ?case by (rule disk_lines_distinct) simp
next
  case (2 e s)
  then have "mset (iterate_map (env_disk_ord e) (disk_sample e)) = mset (disk_sample e)"
    by (intro mset_iterate_map disk_lines_distinct) simp_all
  then have "mset (sample_deltas disk_delta (\<lambda>_. True) (prev_map s) (iterate_map (env_disk_ord e) (disk_sample e))) =
      mset (sample_deltas disk_delta (\<lambda>_. True) (prev_map s) (disk_sample e))"
    by (rule mset_sample_deltas)
  then show ?case
    unfolding Disk_Collect_def Let_def disk_report_deltas DiskMonitor.simps .
next
  case (3 e s)
  show ?case by (simp add: Disk_Collect_def Let_def)
next
  case (4 k p c)
  show ?case by (simp add: disk_delta_def)
qed

section \<open>Reading back what the kernel prints\<close>

text \<open>
  A line of \<open>/proc/diskstats\<close>: the device numbers with padding, the name, the ten counters the
  code extracts, and whatever follows them.
\<close>

record disk_entry =
  dk_major :: int
  dk_minor :: int
  dk_pad :: "nat \<times> nat"
  dk_dev :: string
  dk_raw :: DiskRaw
  dk_reads_merged :: u64
  dk_read_ms :: u64
  dk_writes_merged :: u64
  dk_write_ms :: u64
  dk_in_progress :: u64
  dk_extra :: string

definition disk_fields :: "disk_entry \<Rightarrow> u64 list" where
  "disk_fields e =
     [reads_done (dk_raw e), dk_reads_merged e, read_sectors (dk_raw e), dk_read_ms e,
      writes_done (dk_raw e), dk_writes_merged e, write_sectors (dk_raw e), dk_write_ms e,
      dk_in_progress e, io_ticks (dk_raw e)]"

definition disk_entry_line :: "disk_entry \<Rightarrow> string" where
  "disk_entry_line e =
     replicate (fst (dk_pad e)) CHR '' '' @ show_dec (dk_major e) @
     (CHR '' '' # replicate (snd (dk_pad e)) CHR '' '') @ show_dec (dk_minor e) @ CHR '' '' # dk_dev e @
     concat (map (\<lambda>w. CHR '' '' # show_dec (uint w)) (disk_fields e)) @ dk_extra e"

definition disk_entry_ok :: "disk_entry \<Rightarrow> bool" where
  "disk_entry_ok e \<longleftrightarrow> 0 \<le> dk_major e \<and> dk_major e < 2 ^ 31 \<and> 0 \<le> dk_minor e \<and> dk_minor e < 2 ^ 31 \<and>
     dk_dev e \<noteq> [] \<and> list_all (\<lambda>c. \<not> is_space c) (dk_dev e) \<and> no_digit_ahead (dk_extra e) \<and>
     newline \<notin> set (dk_extra e)"

lemma parse_disk_entry:
  assumes "disk_entry_ok e"
  shows "ParseDiskStatsLine (disk_entry_line e) = Some (dk_dev e, dk_raw e)"
proof -
  let ?rest = "concat (map (\<lambda>w. CHR '' '' # show_dec (uint w)) (disk_fields e)) @ dk_extra e"
  have sp: "list_all is_space (replicate n CHR '' '')" "is_space CHR '' ''" for n
    by (simp_all add: list_all_iff is_space_def)
  have nd: "\<not> is_digit CHR '' ''" by (simp add: is_digit_def)
  have 1: "read_i32 (istringstream (disk_entry_line e)) 0 = (dk_major e,
      \<lparr>is_rest = (CHR '' '' # replicate (snd (dk_pad e)) CHR '' '') @ show_dec (dk_minor e) @ CHR '' '' # dk_dev e @ ?rest,
       is_eof = False, is_fail = False\<rparr>)"
    using assms sp nd unfolding istringstream_def disk_entry_line_def disk_entry_ok_def
    by (subst read_i32_show) simp_all
  have 2: "read_i32 \<lparr>is_rest = (CHR '' '' # replicate (snd (dk_pad e)) CHR '' '') @ show_dec (dk_minor e) @ CHR '' '' # dk_dev e @ ?rest,
       is_eof = False, is_fail = False\<rparr> 0 =
      (dk_minor e, \<lparr>is_rest = CHR '' '' # dk_dev e @ ?rest, is_eof = False, is_fail = False\<rparr>)"
    using assms sp nd unfolding disk_entry_ok_def by (subst read_i32_show) simp_all
  have 3: "read_word \<lparr>is_rest = CHR '' '' # dk_dev e @ ?rest, is_eof = False, is_fail = False\<rparr> [] =
      (dk_dev e, \<lparr>is_rest = ?rest, is_eof = False, is_fail = False\<rparr>)"
    using assms unfolding disk_entry_ok_def disk_fields_def by (simp add: read_word_field)
  show ?thesis
    using assms nd unfolding ParseDiskStatsLine_def Let_def 1 prod.case 2 3
    by (simp add: disk_fields_def read_u64_field disk_entry_ok_def)
qed

lemma newline_disk_entry_line: "disk_entry_ok e \<Longrightarrow> newline \<notin> set (disk_entry_line e)"
  by (auto simp: disk_entry_line_def disk_entry_ok_def disk_fields_def list_all_iff is_space_def)

definition diskstats_shows :: "file_system \<Rightarrow> disk_entry list \<Rightarrow> bool" where
  "diskstats_shows fs es \<longleftrightarrow> fs ''/proc/diskstats'' = Some (unlines (map disk_entry_line es)) \<and>
     list_all disk_entry_ok es \<and> distinct (map dk_dev es)"

definition disk_values :: "disk_entry list \<Rightarrow> (string \<times> DiskRaw) list" where
  "disk_values es = map (\<lambda>e. (dk_dev e, dk_raw e)) (filter (\<lambda>e. \<not> disk_skipped (dk_dev e)) es)"

lemma disk_lines_entries:
  assumes "list_all disk_entry_ok es" and "distinct (map fst m @ map dk_dev es)"
  shows "disk_lines (map disk_entry_line es) m = m @ disk_values es"
  using assms
proof (induction es arbitrary: m)
  case (Cons e es)
  show ?case
  proof (cases "disk_skipped (dk_dev e)")
    case True
    with Cons show ?thesis by (simp add: parse_disk_entry disk_values_def)
  next
    case False
    have "dk_dev e \<notin> fst ` set m" using Cons.prems by auto
    then have "AList.update (dk_dev e) (dk_raw e) m = m @ [(dk_dev e, dk_raw e)]" by (rule update_new)
    with False Cons.IH [of "m @ [(dk_dev e, dk_raw e)]"] Cons.prems show ?thesis
      by (simp add: parse_disk_entry disk_values_def)
  qed
qed (simp add: disk_values_def)

lemma disk_sample_shows:
  assumes "diskstats_shows fs es"
  shows "disk_lines (getlines (ReadFile fs ''/proc/diskstats'')) [] = disk_values es"
proof -
  have "getlines (ReadFile fs ''/proc/diskstats'') = map disk_entry_line es"
    using assms by (simp add: diskstats_shows_def ReadFile_def getlines_unlines list_all_iff newline_disk_entry_line)
  with assms show ?thesis by (simp add: disk_lines_entries diskstats_shows_def)
qed

text \<open>
  C23: Whatever the iteration order of the hash map, after a sample of the devices \<open>es0\<close> and then
  one of the devices \<open>es1\<close>, \<open>Collect\<close> reports exactly one record for every device in both samples
  that is not a loop or ram device, each by the differences of that device's counters.
\<close>

theorem disk_collect_reports_deltas:
  assumes "iteration_order ord" and "diskstats_shows fs0 es0" and "diskstats_shows fs1 es1"
  shows "set (disks (Disk_Collect ord fs1 (Disk_Init fs0 DiskMonitor_new))) =
      {disk_delta dev p c | dev p c. (dev, p) \<in> set (disk_values es0) \<and> (dev, c) \<in> set (disk_values es1)} \<and>
    distinct (map ds_device (disks (Disk_Collect ord fs1 (Disk_Init fs0 DiskMonitor_new))))"
proof -
  define e :: env where "e = \<lparr>env_fs = fs1, env_nprocs = 0, env_gethostname = None,
    env_getaddrinfo = (\<lambda>_. None), env_disk_ord = ord, env_net_ord = ord\<rparr>"
  have e: "env_fs e = fs1" "env_disk_ord e = ord" by (simp_all add: e_def)
  have "prev_map (Disk_Init fs0 DiskMonitor_new) = disk_values es0"
    using assms(2) by (simp add: Disk_Init_def DiskMonitor_new_def disk_sample_shows)
  moreover have "distinct (map fst (disk_values es0))"
    using assms(2) unfolding disk_sample_shows [OF assms(2), symmetric] by (intro disk_lines_distinct) simp
  moreover note diskc.set_out [of e "Disk_Init fs0 DiskMonitor_new"] diskc.names_distinct [of e "Disk_Init fs0 DiskMonitor_new"]
  ultimately show ?thesis
    using assms(1) by (auto simp: e disk_sample_shows [OF assms(3)])
qed

definition demo_disk :: "string \<Rightarrow> u64 \<Rightarrow> disk_entry" where
  "demo_disk dev n = \<lparr>dk_major = 8, dk_minor = 0, dk_pad = (3, 6), dk_dev = dev,
     dk_raw = \<lparr>reads_done = n, writes_done = 2 * n, read_sectors = 8 * n, write_sectors = 16 * n, io_ticks = n\<rparr>,
     dk_reads_merged = 1, dk_read_ms = 2, dk_writes_merged = 3, dk_write_ms = 4, dk_in_progress = 0,
     dk_extra = '' 77 0''\<rparr>"

definition diskstats_file :: "disk_entry list \<Rightarrow> file_system" where
  "diskstats_file es path =
     (if path = ''/proc/diskstats'' then Some (unlines (map disk_entry_line es)) else None)"

theorem disk_collect_reports_deltas_witness:
  "set (disks (Disk_Collect rev (diskstats_file [demo_disk ''sda'' 500, demo_disk ''loop0'' 7])
      (Disk_Init (diskstats_file [demo_disk ''loop0'' 3, demo_disk ''sda'' 100]) DiskMonitor_new))) =
    {disk_delta ''sda'' (dk_raw (demo_disk ''sda'' 100)) (dk_raw (demo_disk ''sda'' 500))}"
proof -
  have ok: "diskstats_shows (diskstats_file es) es" if "es = [demo_disk ''sda'' 500, demo_disk ''loop0'' 7] \<or>
      es = [demo_disk ''loop0'' 3, demo_disk ''sda'' 100]" for es
    using that by (auto simp: diskstats_shows_def diskstats_file_def demo_disk_def disk_entry_ok_def is_space_def is_digit_def)
  show ?thesis
    using disk_collect_reports_deltas [OF iteration_order_rev ok [OF disjI2 [OF refl]] ok [OF disjI1 [OF refl]]]
    by (simp add: disk_values_def disk_skipped_def demo_disk_def)
qed

section \<open>The reported differences\<close>

lemma mb_exact:
  assumes "p \<le> c" and "uint c - uint p = n" and "n \<le> 2 ^ 44"
  shows "ddiv (dmul (of_u64 (c - p)) (Fin 512)) (Fin (1024 * 1024)) = Fin (of_int n / 2048)"
proof -
  have u: "uint (c - p) = n" using assms(1,2) by (simp add: uint_minus_simple_alt word_le_def)
  have n0: "0 \<le> n" using assms(1,2) by (simp add: word_le_def)
  have "rnd (of_int n) = Fin (of_int n)" and "rnd (of_int (n * 512)) = Fin (of_int (n * 512))"
    using assms(3) n0 by (intro rnd_of_int; simp)+
  moreover have "rnd (of_int n / 2 ^ 11) = Fin (of_int n / 2 ^ 11)"
    using assms(3) n0 by (intro rnd_dyadic) simp_all
  ultimately show ?thesis by (simp only: of_u64_def u) simp
qed

text \<open>
  C24: For counters that advanced by at most \<open>2 ^ 44\<close>, the record of a device holds exactly the
  megabytes read and written since the previous sample (512-byte sectors), the number of
  completed operations and the milliseconds of I/O time: totals of the interval, since the code
  never divides by its length.
\<close>

theorem disk_delta_exact:
  assumes "read_sectors p \<le> read_sectors c" and "uint (read_sectors c) - uint (read_sectors p) = r" and "r \<le> 2 ^ 44"
    and "write_sectors p \<le> write_sectors c" and "uint (write_sectors c) - uint (write_sectors p) = w" and "w \<le> 2 ^ 44"
    and "reads_done p \<le> reads_done c" and "uint (reads_done c) - uint (reads_done p) = i" and "i \<le> 2 ^ 44"
    and "writes_done p \<le> writes_done c" and "uint (writes_done c) - uint (writes_done p) = k" and "k \<le> 2 ^ 44"
    and "io_ticks p \<le> io_ticks c" and "uint (io_ticks c) - uint (io_ticks p) = t" and "t \<le> 2 ^ 44"
  shows "disk_delta dev p c =
    \<lparr>ds_device = dev, ds_read_mbps = Fin (of_int (512 * r) / 2 ^ 20), ds_write_mbps = Fin (of_int (512 * w) / 2 ^ 20),
     ds_iops = Fin (of_int (i + k)), ds_io_latency_ms = Fin (of_int t)\<rparr>"
proof -
  have "of_u64 (io_ticks c - io_ticks p) = Fin (of_int t)"
    using assms(13-15) by (intro u64_diff_exact) simp_all
  moreover have "rnd (of_int t) = Fin (of_int t)"
    using assms(13-15) by (intro rnd_of_int) (simp add: word_le_def)
  moreover have "of_u64 ((reads_done c + writes_done c) - (reads_done p + writes_done p)) = Fin (of_int (i + k))"
    using assms(7-12) by (intro u64_sum_diff_exact) simp_all
  ultimately show ?thesis
    using mb_exact [OF assms(1-3)] mb_exact [OF assms(4-6)] by (simp add: disk_delta_def)
qed

theorem disk_delta_exact_witness:
  "disk_delta ''sda'' (dk_raw (demo_disk ''sda'' 100)) (dk_raw (demo_disk ''sda'' 500)) =
    \<lparr>ds_device = ''sda'', ds_read_mbps = Fin (of_int (512 * 3200) / 2 ^ 20), ds_write_mbps = Fin (of_int (512 * 6400) / 2 ^ 20),
     ds_iops = Fin (of_int (400 + 800)), ds_io_latency_ms = Fin (of_int 400)\<rparr>"
  by (rule disk_delta_exact) (simp_all add: demo_disk_def)

text \<open>
  C25: A counter that went back (a device detached and attached again) is reported as an enormous
  transfer: when the sector count fell by at most \<open>2 ^ 63\<close> the record claims at least \<open>2 ^ 52\<close>
  megabytes read.
\<close>

theorem disk_counter_reset_wraps:
  assumes "read_sectors c < read_sectors p" and "uint (read_sectors p) - uint (read_sectors c) \<le> 2 ^ 63"
  shows "dle (Fin (2 ^ 52)) (ds_read_mbps (disk_delta dev p c))"
proof -
  let ?d = "read_sectors c - read_sectors p"
  have "uint ?d = uint (read_sectors c) - uint (read_sectors p) + 2 ^ 64"
    using assms(1) by (simp add: uint_sub_if' word_less_def)
  with assms(2) have "2 ^ 63 \<le> uint ?d" by simp
  then have "of_int (2 ^ 63) \<le> rat_of_int (uint ?d)" by (simp only: of_int_le_iff)
  moreover have d: "is_double (Fin (2 ^ n))" if "n \<le> 1000" for n
  proof -
    have "representable (2 ^ n)" by (rule representableI [of _ 1 "int n"]) simp_all
    moreover have "(2::rat) ^ n \<le> 2 ^ 1000" using that by (intro power_increasing) simp_all
    then have "\<not> max_exceeded (2 ^ n)" by (intro big_below_max) simp
    ultimately show ?thesis by (simp add: is_double.simps)
  qed
  ultimately have "dle (Fin (2 ^ 63)) (of_u64 ?d)"
    unfolding of_u64_def by (intro rnd_ge d) simp_all
  then have "dle (Fin (2 ^ 72)) (dmul (of_u64 ?d) (Fin 512))"
    using d [of 72] by (cases "of_u64 ?d") (auto intro!: rnd_ge simp: inf_times_def)
  then have "dle (Fin (2 ^ 52)) (ddiv (dmul (of_u64 ?d) (Fin 512)) (Fin (1024 * 1024)))"
    using d [of 52] by (cases "dmul (of_u64 ?d) (Fin 512)") (auto intro!: rnd_ge)
  then show ?thesis by (simp only: disk_delta_def DiskStats.simps)
qed

theorem disk_counter_reset_wraps_witness:
  "dle (Fin (2 ^ 52)) (ds_read_mbps (disk_delta ''sdb'' (dk_raw (demo_disk ''sdb'' 500)) (dk_raw (demo_disk ''sdb'' 100))))"
  by (rule disk_counter_reset_wraps) (simp_all add: demo_disk_def)

section \<open>The collector implements the interface\<close>

definition disk_wf :: "DiskMonitor \<Rightarrow> bool" where
  "disk_wf m \<longleftrightarrow> distinct (map fst (prev_map m)) \<and>
     list_all (\<lambda>d. is_double (ds_read_mbps d) \<and> is_double (ds_write_mbps d) \<and> is_double (ds_iops d) \<and>
       is_double (ds_io_latency_ms d)) (disks m)"

lemma disk_init_wf: "disk_wf (Disk_Init fs DiskMonitor_new)"
  by (simp add: disk_wf_def Disk_Init_def DiskMonitor_new_def disk_lines_distinct)

lemma disk_report_doubles:
  "list_all (\<lambda>d. is_double (ds_read_mbps d) \<and> is_double (ds_write_mbps d) \<and> is_double (ds_iops d) \<and>
     is_double (ds_io_latency_ms d)) (disk_report prev xs)"
  by (induction prev xs rule: disk_report.induct) (simp_all add: disk_delta_def split: option.splits)

lemma disk_collect_wf: "disk_wf (Disk_Collect ord fs m)"
  by (simp add: disk_wf_def Disk_Collect_def Let_def disk_lines_distinct disk_report_doubles)

interpretation diskm: total_monitor DiskMonitor_new "\<lambda>e. Disk_Init (env_fs e)"
  "\<lambda>e m. Inr (Disk_Collect (env_disk_ord e) (env_fs e) m)" "\<lambda>m. m" disk_wf
  by unfold_locales (auto simp: disk_init_wf disk_collect_wf)

end
