(* ===== verification/NetMonitor.thy ===== *)
theory NetMonitor
  imports MonitorInterface
begin

text \<open>
  The network collector (\<open>src/worker/src/monitor/net_monitor.cpp\<close>). \<open>Init\<close> and \<open>Collect\<close> parse
  \<open>/proc/net/dev\<close> with two loops that differ in one manipulator; both are modelled, and shown to
  read the same counters. The file-scope \<open>prev_net_map\<close> is part of the state.
\<close>

record NetRaw =
  rx_bytes :: u64
  rx_packets :: u64
  rx_errors :: u64
  rx_dropped :: u64
  tx_bytes :: u64
  tx_packets :: u64
  tx_errors :: u64
  tx_dropped :: u64

record NetStats =
  ns_iface :: string
  ns_rx_mbps :: double
  ns_tx_mbps :: double
  ns_rx_packets :: u64
  ns_tx_packets :: u64
  ns_rx_dropped :: u64
  ns_tx_dropped :: u64
  ns_rx_errors :: u64
  ns_tx_errors :: u64

record NetMonitor =
  interfaces :: "NetStats list"
  prev_net_map :: "(string \<times> NetRaw) list"

definition NetMonitor_new :: NetMonitor where
  "NetMonitor_new = \<lparr>interfaces = [], prev_net_map = []\<rparr>"

text \<open>The interface name in front of the colon, without leading blanks.\<close>

definition trim_left :: "string \<Rightarrow> string" where
  "trim_left s = (case find_first_not_of [CHR '' '', CHR 0x09] s of None \<Rightarrow> s | Some start \<Rightarrow> drop start s)"

text \<open>The four extractions into \<open>dummy\<close>.\<close>

definition read_dummies :: "istream \<Rightarrow> istream" where
  "read_dummies ls = (snd \<circ> (\<lambda>l. read_u64 l 0)) ((snd \<circ> (\<lambda>l. read_u64 l 0))
     ((snd \<circ> (\<lambda>l. read_u64 l 0)) (snd (read_u64 ls 0))))"

definition read_net_init :: "string \<Rightarrow> NetRaw" where
  "read_net_init s =
     (let ls = istringstream s;
          (rb, ls) = read_u64 ls 0; (rp, ls) = read_u64 ls 0;
          (re, ls) = read_u64 ls 0; (rd, ls) = read_u64 ls 0;
          ls = skip_ws ls;
          ls = read_dummies ls;
          (tb, ls) = read_u64 ls 0; (tp, ls) = read_u64 ls 0;
          (te, ls) = read_u64 ls 0; (td, ls) = read_u64 ls 0
      in \<lparr>rx_bytes = rb, rx_packets = rp, rx_errors = re, rx_dropped = rd,
          tx_bytes = tb, tx_packets = tp, tx_errors = te, tx_dropped = td\<rparr>)"

definition read_net_collect :: "string \<Rightarrow> NetRaw" where
  "read_net_collect s =
     (let ls = istringstream s;
          (rb, ls) = read_u64 ls 0; (rp, ls) = read_u64 ls 0;
          (re, ls) = read_u64 ls 0; (rd, ls) = read_u64 ls 0;
          ls = read_dummies ls;
          (tb, ls) = read_u64 ls 0; (tp, ls) = read_u64 ls 0;
          (te, ls) = read_u64 ls 0; (td, ls) = read_u64 ls 0
      in \<lparr>rx_bytes = rb, rx_packets = rp, rx_errors = re, rx_dropped = rd,
          tx_bytes = tb, tx_packets = tp, tx_errors = te, tx_dropped = td\<rparr>)"

text \<open>The line loop, over the reader of the counters.\<close>

fun net_lines :: "(string \<Rightarrow> NetRaw) \<Rightarrow> string list \<Rightarrow> (string \<times> NetRaw) list \<Rightarrow> (string \<times> NetRaw) list" where
  "net_lines rd [] m = m"
| "net_lines rd (line # lines) m =
     (case find_char CHR '':'' line of
        None \<Rightarrow> net_lines rd lines m
      | Some pos \<Rightarrow> net_lines rd lines (AList.update (trim_left (take pos line)) (rd (drop (pos + 1) line)) m))"

definition Net_Init :: "file_system \<Rightarrow> NetMonitor \<Rightarrow> NetMonitor" where
  "Net_Init fs m =
     m\<lparr>prev_net_map := net_lines read_net_init (drop 2 (getlines (ReadFile fs ''/proc/net/dev''))) (prev_net_map m)\<rparr>"

definition net_delta :: "string \<Rightarrow> NetRaw \<Rightarrow> NetRaw \<Rightarrow> NetStats" where
  "net_delta iface prev cur =
     \<lparr>ns_iface = iface,
      ns_rx_mbps = ddiv (dmul (of_u64 (rx_bytes cur - rx_bytes prev)) (Fin 8)) (Fin (1024 * 1024)),
      ns_tx_mbps = ddiv (dmul (of_u64 (tx_bytes cur - tx_bytes prev)) (Fin 8)) (Fin (1024 * 1024)),
      ns_rx_packets = rx_packets cur - rx_packets prev,
      ns_tx_packets = tx_packets cur - tx_packets prev,
      ns_rx_dropped = rx_dropped cur - rx_dropped prev,
      ns_tx_dropped = tx_dropped cur - tx_dropped prev,
      ns_rx_errors = rx_errors cur - rx_errors prev,
      ns_tx_errors = tx_errors cur - tx_errors prev\<rparr>"

fun net_report :: "(string \<times> NetRaw) list \<Rightarrow> (string \<times> NetRaw) list \<Rightarrow> NetStats list" where
  "net_report prev [] = []"
| "net_report prev ((iface, cur) # rest) =
     (if iface = ''lo'' then net_report prev rest
      else case map_of prev iface of
             None \<Rightarrow> net_report prev rest
           | Some p \<Rightarrow> net_delta iface p cur # net_report prev rest)"

definition Net_Collect :: "(string list \<Rightarrow> string list) \<Rightarrow> file_system \<Rightarrow> NetMonitor \<Rightarrow> NetMonitor" where
  "Net_Collect ord fs m =
     (let cur_map = net_lines read_net_collect (drop 2 (getlines (ReadFile fs ''/proc/net/dev''))) []
      in \<lparr>interfaces = net_report (prev_net_map m) (iterate_map ord cur_map), prev_net_map = cur_map\<rparr>)"

section \<open>The two parsers agree\<close>

text \<open>Skipping white space before an extraction changes at most what a failed stream looks like.\<close>

lemma read_u64_skip_ws:
  "read_u64 (skip_ws ls) v = read_u64 ls v \<or>
   (is_fail (snd (read_u64 (skip_ws ls) v)) \<and> is_fail (snd (read_u64 ls v)))"
proof (cases "is_eof ls \<or> is_fail ls")
  case True
  then show ?thesis by (auto simp: skip_ws_def read_u64_def sentry_def)
next
  case False
  let ?r = "dropWhile is_space (is_rest ls)"
  show ?thesis
  proof (cases "?r = []")
    case True
    with False show ?thesis by (simp add: skip_ws_def read_u64_def sentry_def del: dropWhile_eq_Nil_conv)
  next
    case nonempty: False
    have "dropWhile is_space ?r = ?r" by (metis dropWhile_idem)
    with nonempty False have "sentry (skip_ws ls) = sentry ls"
      by (simp add: skip_ws_def sentry_def del: dropWhile_eq_Nil_conv)
    then show ?thesis by (simp add: read_u64_def)
  qed
qed

lemma read_dummies_skip_ws:
  "read_dummies (skip_ws ls) = read_dummies ls \<or>
   (is_fail (read_dummies (skip_ws ls)) \<and> is_fail (read_dummies ls))"
  using read_u64_skip_ws [of ls 0] by (auto simp: read_dummies_def)

lemma read_net_same: "read_net_init s = read_net_collect s"
proof -
  have same: "fst (read_u64 a v) = fst (read_u64 b v) \<and> (snd (read_u64 a v) = snd (read_u64 b v) \<or>
      (is_fail (snd (read_u64 a v)) \<and> is_fail (snd (read_u64 b v))))"
    if "a = b \<or> (is_fail a \<and> is_fail b)" for a b v
    using that read_after_fail(1) [of a v] read_after_fail(1) [of b v] by auto
  define l where "l = snd (read_u64 (snd (read_u64 (snd (read_u64 (snd (read_u64 (istringstream s) 0)) 0)) 0)) 0)"
  note 1 = same [OF read_dummies_skip_ws [of l], of 0]
  note 2 = same [OF conjunct2 [OF 1], of 0]
  note 3 = same [OF conjunct2 [OF 2], of 0]
  note 4 = same [OF conjunct2 [OF 3], of 0]
  show ?thesis
    unfolding read_net_init_def read_net_collect_def Let_def split_beta l_def [symmetric]
    using 1 2 3 4 by simp
qed

lemma net_readers_same: "read_net_init = read_net_collect"
  by (rule ext) (rule read_net_same)

text \<open>
  C27: \<open>Init\<close> and \<open>Collect\<close> read the same counters from every file, well formed or not: the
  sample that \<open>Init\<close> leaves behind is the one \<open>Collect\<close> would have left, although \<open>Init\<close> skips
  white space once more than \<open>Collect\<close>.
\<close>

theorem net_parsers_agree:
  "prev_net_map (Net_Init fs NetMonitor_new) = prev_net_map (Net_Collect ord fs m)"
  by (simp add: Net_Init_def Net_Collect_def NetMonitor_new_def Let_def net_readers_same)

section \<open>Net_Collect is a counter sampler\<close>

lemma net_lines_distinct: "distinct (map fst m) \<Longrightarrow> distinct (map fst (net_lines rd ls m))"
  by (induction rd ls m rule: net_lines.induct) (auto split: option.splits simp: distinct_update)

lemma net_report_deltas: "net_report prev xs = sample_deltas net_delta (\<lambda>i. i \<noteq> ''lo'') prev xs"
  by (induction prev xs rule: net_report.induct) (auto split: option.splits)

abbreviation net_sample :: "env \<Rightarrow> (string \<times> NetRaw) list" where
  "net_sample e \<equiv> net_lines read_net_collect (drop 2 (getlines (ReadFile (env_fs e) ''/proc/net/dev''))) []"

interpretation netc: counter_sampler net_sample prev_net_map interfaces
  "\<lambda>e. Net_Collect (env_net_ord e) (env_fs e)" net_delta "\<lambda>i. i \<noteq> ''lo''" ns_iface
  "\<lambda>e. iteration_order (env_net_ord e)"
proof (unfold_locales, goal_cases)
  case (1 e)
  show ?case by (rule net_lines_distinct) simp
next
  case (2 e s)
  then have "mset (iterate_map (env_net_ord e) (net_sample e)) = mset (net_sample e)"
    by (intro mset_iterate_map net_lines_distinct) simp_all
  then have "mset (sample_deltas net_delta (\<lambda>i. i \<noteq> ''lo'') (prev_net_map s) (iterate_map (env_net_ord e) (net_sample e))) =
      mset (sample_deltas net_delta (\<lambda>i. i \<noteq> ''lo'') (prev_net_map s) (net_sample e))"
    by (rule mset_sample_deltas)
  then show ?case
    unfolding Net_Collect_def Let_def net_report_deltas NetMonitor.simps .
next
  case (3 e s)
  show ?case by (simp add: Net_Collect_def Let_def)
next
  case (4 k p c)
  show ?case by (simp add: net_delta_def)
qed

section \<open>Reading back what the kernel prints\<close>

text \<open>
  A line of \<open>/proc/net/dev\<close>: padding, name, colon, the sixteen counters. The kernel aligns the
  columns, so each counter has one or more blanks in front of it: \<open>ne_gap e i\<close> is the number of
  blanks beyond the first.
\<close>

record net_entry =
  ne_pad :: nat
  ne_iface :: string
  ne_raw :: NetRaw
  ne_rx_rest :: "u64 \<times> u64 \<times> u64 \<times> u64"
  ne_gap :: "nat \<Rightarrow> nat"
  ne_extra :: string

definition net_fields :: "net_entry \<Rightarrow> u64 list" where
  "net_fields e = (case ne_rx_rest e of (fifo, frame, compressed, multicast) \<Rightarrow>
     [rx_bytes (ne_raw e), rx_packets (ne_raw e), rx_errors (ne_raw e), rx_dropped (ne_raw e),
      fifo, frame, compressed, multicast,
      tx_bytes (ne_raw e), tx_packets (ne_raw e), tx_errors (ne_raw e), tx_dropped (ne_raw e)])"

definition net_columns :: "(nat \<Rightarrow> nat) \<Rightarrow> u64 list \<Rightarrow> string" where
  "net_columns gap ws = concat (map (\<lambda>(i, w). replicate (Suc (gap i)) CHR '' '' @ show_dec (uint w)) (enumerate 0 ws))"

definition net_entry_line :: "net_entry \<Rightarrow> string" where
  "net_entry_line e = replicate (ne_pad e) CHR '' '' @ ne_iface e @ CHR '':'' #
     (net_columns (ne_gap e) (net_fields e) @ ne_extra e)"

definition net_entry_ok :: "net_entry \<Rightarrow> bool" where
  "net_entry_ok e \<longleftrightarrow> ne_iface e \<noteq> [] \<and> list_all (\<lambda>c. \<not> is_space c \<and> c \<noteq> CHR '':'') (ne_iface e) \<and>
     no_digit_ahead (ne_extra e) \<and> newline \<notin> set (ne_extra e)"

lemma trim_left_pad:
  assumes "s \<noteq> []" and "list_all (\<lambda>c. \<not> is_space c) s"
  shows "trim_left (replicate n CHR '' '' @ s) = s"
proof -
  obtain c cs where s: "s = c # cs" using assms(1) by (cases s) auto
  then have "c \<noteq> CHR '' ''" "c \<noteq> CHR 0x09" using assms(2) by (auto simp: is_space_def)
  with s have "find_first_not_of [CHR '' '', CHR 0x09] (replicate n CHR '' '' @ s) = Some n"
    by (induction n) simp_all
  then show ?thesis by (simp add: trim_left_def)
qed

lemma no_digit_blanks: "no_digit_ahead (replicate (Suc n) CHR '' '' @ r)"
  by (simp add: is_digit_def)

lemma net_entry_parse:
  assumes "net_entry_ok e"
  shows "net_lines read_net_collect (net_entry_line e # ls) m =
    net_lines read_net_collect ls (AList.update (ne_iface e) (ne_raw e) m)"
proof -
  let ?pre = "replicate (ne_pad e) CHR '' '' @ ne_iface e"
  let ?post = "net_columns (ne_gap e) (net_fields e) @ ne_extra e"
  have line: "net_entry_line e = ?pre @ CHR '':'' # ?post" by (simp add: net_entry_line_def)
  have "CHR '':'' \<notin> set ?pre" using assms by (auto simp: net_entry_ok_def list_all_iff)
  then have "find_char CHR '':'' (net_entry_line e) = Some (length ?pre)"
    unfolding line by (rule find_char_append)
  moreover have "take (length ?pre) (net_entry_line e) = ?pre" "drop (length ?pre + 1) (net_entry_line e) = ?post"
    unfolding line by simp_all
  moreover have "trim_left ?pre = ne_iface e"
    using assms by (intro trim_left_pad) (auto simp: net_entry_ok_def list_all_iff)
  moreover have "read_net_collect ?post = ne_raw e"
    using assms by (cases "ne_rx_rest e") (simp add: read_net_collect_def net_fields_def net_columns_def istringstream_def
        read_dummies_def read_u64_padded no_digit_blanks is_digit_def net_entry_ok_def del: replicate_Suc)
  ultimately show ?thesis by (simp del: length_append take_append drop_append)
qed

definition netdev_shows :: "file_system \<Rightarrow> net_entry list \<Rightarrow> bool" where
  "netdev_shows fs es \<longleftrightarrow> (\<exists>h1 h2. newline \<notin> set h1 \<and> newline \<notin> set h2 \<and>
     fs ''/proc/net/dev'' = Some (unlines (h1 # h2 # map net_entry_line es))) \<and>
     list_all net_entry_ok es \<and> distinct (map ne_iface es)"

definition net_values :: "net_entry list \<Rightarrow> (string \<times> NetRaw) list" where
  "net_values es = map (\<lambda>e. (ne_iface e, ne_raw e)) es"

lemma net_lines_entries:
  assumes "list_all net_entry_ok es" and "distinct (map fst m @ map ne_iface es)"
  shows "net_lines read_net_collect (map net_entry_line es) m = m @ net_values es"
  using assms
proof (induction es arbitrary: m)
  case (Cons e es)
  have "ne_iface e \<notin> fst ` set m" using Cons.prems by auto
  then have "AList.update (ne_iface e) (ne_raw e) m = m @ [(ne_iface e, ne_raw e)]" by (rule update_new)
  with Cons.IH [of "m @ [(ne_iface e, ne_raw e)]"] Cons.prems show ?case
    by (simp add: net_entry_parse net_values_def del: net_lines.simps)
qed (simp add: net_values_def)

lemma newline_net_entry_line: "net_entry_ok e \<Longrightarrow> newline \<notin> set (net_entry_line e)"
proof -
  assume ok: "net_entry_ok e"
  have "newline \<notin> set (net_columns gap ws)" for gap ws
    by (induction ws rule: rev_induct) (simp_all add: net_columns_def enumerate_append_eq)
  moreover have "is_space newline" by (simp add: is_space_def)
  with ok have "newline \<notin> set (ne_iface e)" unfolding net_entry_ok_def list_all_iff by blast
  ultimately show ?thesis
    using ok by (simp add: net_entry_line_def net_entry_ok_def del: set_concat)
qed

lemma net_sample_shows:
  assumes "netdev_shows fs es"
  shows "net_lines read_net_collect (drop 2 (getlines (ReadFile fs ''/proc/net/dev''))) [] = net_values es"
proof -
  from assms obtain h1 h2 where h: "newline \<notin> set h1" "newline \<notin> set h2"
    "fs ''/proc/net/dev'' = Some (unlines (h1 # h2 # map net_entry_line es))" by (auto simp: netdev_shows_def)
  have "list_all (\<lambda>l. newline \<notin> set l) (h1 # h2 # map net_entry_line es)"
    using assms h by (simp add: netdev_shows_def list_all_iff newline_net_entry_line)
  then have "getlines (ReadFile fs ''/proc/net/dev'') = h1 # h2 # map net_entry_line es"
    unfolding ReadFile_def h(3) option.case by (rule getlines_unlines)
  with assms show ?thesis by (simp add: net_lines_entries netdev_shows_def)
qed

text \<open>
  C26: Whatever the iteration order of the hash map, after a sample of the interfaces \<open>es0\<close> and
  then one of the interfaces \<open>es1\<close>, in files with two header lines and one line for each interface,
  whose counters are separated by any positive number of blanks, \<open>Collect\<close> reports exactly one record for every interface in
  both samples except \<open>lo\<close>, each by the differences of that interface's own counters.
\<close>

theorem net_collect_reports_deltas:
  assumes "iteration_order ord" and "netdev_shows fs0 es0" and "netdev_shows fs1 es1"
  shows "set (interfaces (Net_Collect ord fs1 (Net_Init fs0 NetMonitor_new))) =
      {net_delta i p c | i p c. i \<noteq> ''lo'' \<and> (i, p) \<in> set (net_values es0) \<and> (i, c) \<in> set (net_values es1)} \<and>
    distinct (map ns_iface (interfaces (Net_Collect ord fs1 (Net_Init fs0 NetMonitor_new))))"
proof -
  define e :: env where "e = \<lparr>env_fs = fs1, env_nprocs = 0, env_gethostname = None,
    env_getaddrinfo = (\<lambda>_. None), env_disk_ord = ord, env_net_ord = ord\<rparr>"
  have e: "env_fs e = fs1" "env_net_ord e = ord" by (simp_all add: e_def)
  have "prev_net_map (Net_Init fs0 NetMonitor_new) = net_values es0"
    using assms(2) by (simp add: Net_Init_def NetMonitor_new_def net_readers_same net_sample_shows)
  moreover have "distinct (map fst (net_values es0))"
    using assms(2) by (simp add: net_values_def netdev_shows_def comp_def)
  moreover note netc.set_out [of e "Net_Init fs0 NetMonitor_new"] netc.names_distinct [of e "Net_Init fs0 NetMonitor_new"]
  ultimately show ?thesis
    using assms(1) by (auto simp: e net_sample_shows [OF assms(3)])
qed

definition demo_net :: "string \<Rightarrow> u64 \<Rightarrow> net_entry" where
  "demo_net i n = \<lparr>ne_pad = 2, ne_iface = i,
     ne_raw = \<lparr>rx_bytes = 1000 * n, rx_packets = n, rx_errors = 0, rx_dropped = 1,
               tx_bytes = 500 * n, tx_packets = n, tx_errors = 0, tx_dropped = 0\<rparr>,
     ne_rx_rest = (0, 0, 0, 0), ne_gap = (\<lambda>i. if i < 2 then 7 - i else 4), ne_extra = ''    0     0       0          0''\<rparr>"

definition netdev_file :: "net_entry list \<Rightarrow> file_system" where
  "netdev_file es path =
     (if path = ''/proc/net/dev'' then Some (unlines (''Inter-'' # '' face'' # map net_entry_line es)) else None)"

theorem net_collect_reports_deltas_witness:
  "set (interfaces (Net_Collect rev (netdev_file [demo_net ''lo'' 9, demo_net ''eth0'' 50])
      (Net_Init (netdev_file [demo_net ''lo'' 3, demo_net ''eth0'' 10]) NetMonitor_new))) =
    {net_delta ''eth0'' (ne_raw (demo_net ''eth0'' 10)) (ne_raw (demo_net ''eth0'' 50))}"
proof -
  have ok: "netdev_shows (netdev_file [demo_net ''lo'' n, demo_net ''eth0'' k]) [demo_net ''lo'' n, demo_net ''eth0'' k]" for n k
    unfolding netdev_shows_def
    by (intro conjI exI [of _ "''Inter-''"] exI [of _ "'' face''"])
       (simp_all add: netdev_file_def demo_net_def net_entry_ok_def is_space_def is_digit_def)
  show ?thesis
    unfolding conjunct1 [OF net_collect_reports_deltas [OF iteration_order_rev ok [of 3 10] ok [of 9 50]]]
    by (auto simp: net_values_def demo_net_def)
qed

section \<open>The collector implements the interface\<close>

definition net_wf :: "NetMonitor \<Rightarrow> bool" where
  "net_wf m \<longleftrightarrow> distinct (map fst (prev_net_map m)) \<and>
     list_all (\<lambda>n. ns_iface n \<noteq> ''lo'' \<and> is_double (ns_rx_mbps n) \<and> is_double (ns_tx_mbps n)) (interfaces m)"

lemma net_init_wf: "net_wf (Net_Init fs NetMonitor_new)"
  by (simp add: net_wf_def Net_Init_def NetMonitor_new_def net_lines_distinct)

lemma net_report_ok:
  "list_all (\<lambda>n. ns_iface n \<noteq> ''lo'' \<and> is_double (ns_rx_mbps n) \<and> is_double (ns_tx_mbps n)) (net_report prev xs)"
  by (induction prev xs rule: net_report.induct) (simp_all add: net_delta_def split: option.splits)

lemma net_collect_wf: "net_wf (Net_Collect ord fs m)"
  by (simp add: net_wf_def Net_Collect_def Let_def net_lines_distinct net_report_ok)

interpretation netm: total_monitor NetMonitor_new "\<lambda>e. Net_Init (env_fs e)"
  "\<lambda>e m. Inr (Net_Collect (env_net_ord e) (env_fs e) m)" "\<lambda>m. m" net_wf
  by unfold_locales (auto simp: net_init_wf net_collect_wf)

end
