(* ===== verification/MetricCollector.thy ===== *)
theory MetricCollector
  imports CpuMonitors MemMonitor DiskMonitor NetMonitor
begin

text \<open>
  The host information collector (\<open>src/worker/src/monitor/host_info_monitor.cpp\<close>) and the
  aggregate of the first-layer collectors (\<open>metric_collector.cpp\<close>), which initialises and
  collects its parts in a fixed order. An exception of the memory collector passes through it.
\<close>

record HostInfoMonitor =
  hostname :: string
  ip :: string

definition HostInfoMonitor_new :: HostInfoMonitor where
  "HostInfoMonitor_new = \<lparr>hostname = '''', ip = ''''\<rparr>"

text \<open>The zeroed buffer is the empty name when \<open>gethostname\<close> fails, and is resolved all the same.\<close>

definition HostInfo_Init :: "env \<Rightarrow> HostInfoMonitor \<Rightarrow> HostInfoMonitor" where
  "HostInfo_Init e m =
     (let buf = (case env_gethostname e of None \<Rightarrow> '''' | Some name \<Rightarrow> name);
          m1 = (case env_gethostname e of None \<Rightarrow> m | Some name \<Rightarrow> m\<lparr>hostname := name\<rparr>);
          m2 = (case env_getaddrinfo e buf of None \<Rightarrow> m1 | Some ip_str \<Rightarrow> m1\<lparr>ip := ip_str\<rparr>)
      in if ip m2 = [] then m2\<lparr>ip := ''127.0.0.1''\<rparr> else m2)"

definition HostInfo_Collect :: "HostInfoMonitor \<Rightarrow> HostInfoMonitor" where
  "HostInfo_Collect m = m"

record MetricCollector =
  mc_host :: HostInfoMonitor
  mc_cpu_load :: CpuLoadMonitor
  mc_cpu_stat :: CpuStatMonitor
  mc_mem :: MemMonitor
  mc_disk :: DiskMonitor
  mc_net :: NetMonitor

definition MetricCollector_new :: MetricCollector where
  "MetricCollector_new = \<lparr>mc_host = HostInfoMonitor_new, mc_cpu_load = CpuLoadMonitor_new,
     mc_cpu_stat = CpuStatMonitor_new, mc_mem = MemMonitor_new, mc_disk = DiskMonitor_new, mc_net = NetMonitor_new\<rparr>"

definition Metric_Init :: "env \<Rightarrow> MetricCollector \<Rightarrow> MetricCollector" where
  "Metric_Init e m =
     \<lparr>mc_host = HostInfo_Init e (mc_host m),
      mc_cpu_load = CpuLoad_Init (env_nprocs e) (mc_cpu_load m),
      mc_cpu_stat = CpuStat_Init (env_fs e) (mc_cpu_stat m),
      mc_mem = Mem_Init (mc_mem m),
      mc_disk = Disk_Init (env_fs e) (mc_disk m),
      mc_net = Net_Init (env_fs e) (mc_net m)\<rparr>"

definition Metric_Collect :: "env \<Rightarrow> MetricCollector \<Rightarrow> MetricCollector res" where
  "Metric_Collect e m =
     (let m = m\<lparr>mc_cpu_load := CpuLoad_Collect (env_fs e) (mc_cpu_load m)\<rparr>;
          m = m\<lparr>mc_cpu_stat := CpuStat_Collect (env_fs e) (mc_cpu_stat m)\<rparr>
      in bind_res (Mem_Collect (env_fs e) (mc_mem m))
           (\<lambda>mm. let m = m\<lparr>mc_mem := mm\<rparr>;
                     m = m\<lparr>mc_disk := Disk_Collect (env_disk_ord e) (env_fs e) (mc_disk m)\<rparr>;
                     m = m\<lparr>mc_net := Net_Collect (env_net_ord e) (env_fs e) (mc_net m)\<rparr>
                 in Inr m))"

section \<open>The invariant of the collectors\<close>

definition host_wf :: "HostInfoMonitor \<Rightarrow> bool" where
  "host_wf h \<longleftrightarrow> ip h \<noteq> []"

definition metric_wf :: "MetricCollector \<Rightarrow> bool" where
  "metric_wf m \<longleftrightarrow> host_wf (mc_host m) \<and> cpu_load_wf (mc_cpu_load m) \<and> cpu_stat_wf (mc_cpu_stat m) \<and>
     mem_wf (mc_mem m) \<and> disk_wf (mc_disk m) \<and> net_wf (mc_net m)"

lemma host_init_wf: "host_wf (HostInfo_Init e m)"
  by (simp add: host_wf_def HostInfo_Init_def Let_def)

lemma metric_init_wf: "metric_wf (Metric_Init e MetricCollector_new)"
  by (simp add: metric_wf_def Metric_Init_def MetricCollector_new_def host_init_wf cpu_wf mem_init_wf
      disk_init_wf net_init_wf)

lemma metric_collect_wf:
  assumes "metric_wf m" and "Metric_Collect e m = Inr m'"
  shows "metric_wf m'"
proof -
  obtain mm where mm: "Mem_Collect (env_fs e) (mc_mem m) = Inr mm"
    using assms(2) by (auto simp: Metric_Collect_def Let_def)
  have "mem_wf mm" using mem_collect_wf [OF mm] .
  moreover have "m' = m\<lparr>mc_cpu_load := CpuLoad_Collect (env_fs e) (mc_cpu_load m),
      mc_cpu_stat := CpuStat_Collect (env_fs e) (mc_cpu_stat m), mc_mem := mm,
      mc_disk := Disk_Collect (env_disk_ord e) (env_fs e) (mc_disk m),
      mc_net := Net_Collect (env_net_ord e) (env_fs e) (mc_net m)\<rparr>"
    using assms(2) mm by (simp add: Metric_Collect_def Let_def)
  ultimately show ?thesis
    using assms(1) by (simp add: metric_wf_def cpu_wf disk_collect_wf net_collect_wf)
qed

interpretation metric: monitor_interface MetricCollector_new Metric_Init Metric_Collect "\<lambda>m. m" metric_wf
  by unfold_locales (auto simp: metric_init_wf intro: metric_collect_wf)

lemma metric_collect_parts:
  "Metric_Collect e m = Inr m' \<Longrightarrow> mc_host m' = mc_host m"
  "Metric_Collect e m = Inr m' \<Longrightarrow> mc_cpu_load m' = CpuLoad_Collect (env_fs e) (mc_cpu_load m)"
  "Metric_Collect e m = Inr m' \<Longrightarrow> mc_cpu_stat m' = CpuStat_Collect (env_fs e) (mc_cpu_stat m)"
  by (auto simp: Metric_Collect_def Let_def)

lemma metric_collect_raises:
  "(\<exists>x. Metric_Collect e m = Inl x) \<longleftrightarrow> (\<exists>x. Mem_Collect (env_fs e) (mc_mem m) = Inl x)"
  by (auto simp: Metric_Collect_def Let_def bind_res_def split: sum.splits)

text \<open>
  C28: Whatever the files contain, after \<open>Init\<close> and any sequence of collections that returns, the
  address is set, at least one core is reported, every floating-point metric is a binary64
  value, the sampled maps have one entry per name and the loopback interface is not reported.
\<close>

theorem metric_session_invariant:
  assumes "run_calls Metric_Collect (\<lambda>m. m) cs (Metric_Init e MetricCollector_new) = Inr m"
  shows "metric_wf m"
  using assms by (rule metric.session_wf)

definition demo_env :: env where
  "demo_env = \<lparr>env_fs = meminfo_file demo_meminfo, env_nprocs = 4, env_gethostname = Some ''w1'',
     env_getaddrinfo = (\<lambda>n. if n = ''w1'' then Some ''10.0.0.7'' else None),
     env_disk_ord = rev, env_net_ord = rev\<rparr>"

lemma demo_collect: "\<exists>m'. Metric_Collect demo_env m = Inr m'"
proof -
  have "\<exists>m'. Mem_Collect (meminfo_file demo_meminfo) (mc_mem m) = Inr m'"
  proof -
    have shows_it: "meminfo_shows (meminfo_file demo_meminfo) demo_meminfo"
      by (simp add: meminfo_shows_def meminfo_file_def demo_meminfo_def mem_entry_ok_def)
    then obtain k where "meminfo_lines (getlines (ReadFile (meminfo_file demo_meminfo) ''/proc/meminfo'')) [] = Inr k"
      by (rule meminfo_shows_parse)
    then show ?thesis by (simp add: Mem_Collect_def Let_def)
  qed
  then show ?thesis by (auto simp: Metric_Collect_def Let_def demo_env_def)
qed

theorem metric_session_invariant_witness:
  "\<exists>m. run_calls Metric_Collect (\<lambda>m. m) [CallCollect demo_env] (Metric_Init demo_env MetricCollector_new) = Inr m \<and> metric_wf m"
proof -
  obtain m where m: "Metric_Collect demo_env (Metric_Init demo_env MetricCollector_new) = Inr m"
    using demo_collect by blast
  then have "run_calls Metric_Collect (\<lambda>m. m) [CallCollect demo_env] (Metric_Init demo_env MetricCollector_new) = Inr m"
    by simp
  with metric_session_invariant [OF this] show ?thesis by blast
qed

end
