(* ===== verification/CmdRunner.thy ===== *)
theory CmdRunner
  imports MonitorInterface
begin

text \<open>
  The fork and exec wrapper (\<open>src/worker/include/diagnose/cmd_runner.h\<close>, \<open>cmd_runner.cpp\<close>) over
  a model of the operating system calls it makes, and the look-up of a process or thread by
  name in \<open>/proc\<close> that the diagnosers share.

  The operating system is explicit state: the children that have not been reaped, the images
  they were started with, the SIGTERM signals sent so far, the outcomes of the coming
  \<open>fork\<close> calls as the parent sees them (0 for a failure, otherwise the child's pid), and for every process whether it is already dead when the \<open>waitpid\<close> that follows
  a signal is called. A child may also exit at any other time (\<open>child_exits\<close>).
\<close>

section \<open>The operating system\<close>

datatype child_state = Running | Zombie

record image =
  img_pid :: int
  img_bin :: string
  img_argv :: "string list"
  img_output :: string
  img_pdeathsig :: bool

record os =
  os_forks :: "nat list"
  os_children :: "(int \<times> child_state) list"
  os_images :: "image list"
  os_terms :: "int list"
  os_prompt :: "int \<Rightarrow> bool"

definition child_exits :: "int \<Rightarrow> os \<Rightarrow> os" where
  "child_exits p s =
     (case map_of (os_children s) p of
        Some Running \<Rightarrow> s\<lparr>os_children := AList.update p Zombie (os_children s)\<rparr>
      | _ \<Rightarrow> s)"

text \<open>\<open>kill(p, SIGTERM)\<close> and \<open>waitpid(p, &status, WNOHANG)\<close>.\<close>

definition sys_kill :: "int \<Rightarrow> os \<Rightarrow> os" where
  "sys_kill p s =
     (let s = s\<lparr>os_terms := os_terms s @ [p]\<rparr> in if os_prompt s p then child_exits p s else s)"

definition sys_waitpid :: "int \<Rightarrow> os \<Rightarrow> int \<times> os" where
  "sys_waitpid p s =
     (case map_of (os_children s) p of
        None \<Rightarrow> (- 1, s)
      | Some Running \<Rightarrow> (0, s)
      | Some Zombie \<Rightarrow> (p, s\<lparr>os_children := AList.delete p (os_children s)\<rparr>))"

section \<open>CmdRunner\<close>

record CmdRunner =
  runner_pid :: int
  runner_output :: string

definition CmdRunner_new :: CmdRunner where
  "CmdRunner_new = \<lparr>runner_pid = - 1, runner_output = ''''\<rparr>"

text \<open>
  The descriptors the child closes: those named by digits in \<open>/proc/self/fd\<close> that are above
  2 and are not the directory stream itself.
\<close>

definition atoi :: "string \<Rightarrow> int" where
  "atoi s = digits_val (takeWhile is_digit s)"

definition fds_closed :: "int \<Rightarrow> string list \<Rightarrow> int list" where
  "fds_closed dfd names =
     filter (\<lambda>fdno. 2 < fdno \<and> fdno \<noteq> dfd) (map atoi (filter (\<lambda>n. n \<noteq> [] \<and> is_digit (hd n)) names))"

text \<open>
  \<open>Start\<close>. The child's side is the image that \<open>execv\<close> installs: argument vector, the file
  that stdout and stderr go to (empty when they are inherited), and the parent-death signal.
\<close>

definition sys_fork :: "os \<Rightarrow> int \<times> os" where
  "sys_fork s =
     (case os_forks s of
        [] \<Rightarrow> (- 1, s)
      | n # ns \<Rightarrow>
          let s = s\<lparr>os_forks := ns\<rparr>
          in if n = 0 then (- 1, s)
             else (int n, s\<lparr>os_children := AList.update (int n) Running (os_children s)\<rparr>))"

definition Runner_Start :: "string \<Rightarrow> string list \<Rightarrow> string \<Rightarrow> CmdRunner \<Rightarrow> os \<Rightarrow> bool \<times> CmdRunner \<times> os" where
  "Runner_Start bin args output_file r s =
     (let (p, s) = sys_fork s; r = r\<lparr>runner_output := output_file, runner_pid := p\<rparr>
      in if p < 0 then (False, r, s)
         else (True, r,
               s\<lparr>os_images := os_images s @
                   [\<lparr>img_pid = p, img_bin = bin, img_argv = bin # args, img_output = output_file,
                     img_pdeathsig = True\<rparr>]\<rparr>))"

definition Runner_Stop :: "CmdRunner \<Rightarrow> os \<Rightarrow> CmdRunner \<times> os" where
  "Runner_Stop r s =
     (if runner_pid r \<le> 0 then (r, s)
      else let s = sys_kill (runner_pid r) s; (ret, s) = sys_waitpid (runner_pid r) s
           in (r\<lparr>runner_pid := - 1\<rparr>, s))"

definition Runner_IsRunning :: "CmdRunner \<Rightarrow> os \<Rightarrow> bool \<times> CmdRunner \<times> os" where
  "Runner_IsRunning r s =
     (if runner_pid r \<le> 0 then (False, r, s)
      else let (ret, s) = sys_waitpid (runner_pid r) s
           in if ret = runner_pid r then (False, r\<lparr>runner_pid := - 1\<rparr>, s)
              else if ret < 0 then (False, r\<lparr>runner_pid := - 1\<rparr>, s)
              else (True, r, s))"

text \<open>
  The destructor \<open>~CmdRunner\<close> stops. Because it is declared by the user the class has no move
  operations: \<open>std::move\<close> of a runner copies it, and the source keeps its \<open>pid_\<close>.
\<close>

definition Runner_destroy :: "CmdRunner \<Rightarrow> os \<Rightarrow> os" where
  "Runner_destroy r s = snd (Runner_Stop r s)"

section \<open>What the operations promise\<close>

definition os_ok :: "os \<Rightarrow> bool" where
  "os_ok s \<longleftrightarrow> distinct (map fst (os_children s))"

lemma os_ok_exits [wf_intros]: "os_ok s \<Longrightarrow> os_ok (child_exits p s)"
  by (auto simp: os_ok_def child_exits_def distinct_update split: option.splits child_state.splits)

lemma os_ok_kill [wf_intros]: "os_ok s \<Longrightarrow> os_ok (sys_kill p s)"
proof -
  assume "os_ok s"
  then have "os_ok (s\<lparr>os_terms := os_terms s @ [p]\<rparr>)" by (simp add: os_ok_def)
  then show ?thesis by (simp add: sys_kill_def Let_def os_ok_exits)
qed

lemma os_ok_waitpid [wf_intros]: "os_ok s \<Longrightarrow> os_ok (snd (sys_waitpid p s))"
  by (auto simp: os_ok_def sys_waitpid_def distinct_delete split: option.splits child_state.splits)

lemma os_ok_Stop [wf_intros]: "os_ok s \<Longrightarrow> os_ok (snd (Runner_Stop r s))"
  by (simp add: Runner_Stop_def Let_def split_beta os_ok_kill os_ok_waitpid)

lemma os_ok_Start [wf_intros]: "os_ok s \<Longrightarrow> os_ok (snd (snd (Runner_Start b a f r s)))"
  by (simp add: Runner_Start_def sys_fork_def Let_def os_ok_def distinct_update split: list.splits)

lemma terms_exits [simp]: "os_terms (child_exits p s) = os_terms s"
  by (simp add: child_exits_def split: option.splits child_state.splits)

lemma terms_kill [simp]: "os_terms (sys_kill p s) = os_terms s @ [p]"
  by (simp add: sys_kill_def Let_def)

lemma terms_waitpid [simp]: "os_terms (snd (sys_waitpid p s)) = os_terms s"
  by (simp add: sys_waitpid_def split: option.splits child_state.splits)

lemma terms_Stop: "os_terms (snd (Runner_Stop r s)) = os_terms s @ (if 0 < runner_pid r then [runner_pid r] else [])"
  by (simp add: Runner_Stop_def Let_def split_beta)

lemma terms_destroy: "os_terms (Runner_destroy r s) = os_terms s @ (if 0 < runner_pid r then [runner_pid r] else [])"
  by (simp add: Runner_destroy_def terms_Stop)

lemma terms_Start [simp]: "os_terms (snd (snd (Runner_Start b a f r s))) = os_terms s"
  by (simp add: Runner_Start_def sys_fork_def Let_def split: list.splits)

lemma terms_IsRunning [simp]: "os_terms (snd (snd (Runner_IsRunning r s))) = os_terms s"
  by (simp add: Runner_IsRunning_def Let_def split_beta)

text \<open>The contract of a runner, as its clients use it.\<close>

locale process_runner =
  fixes start :: "string \<Rightarrow> string list \<Rightarrow> string \<Rightarrow> 'r \<Rightarrow> 'w \<Rightarrow> bool \<times> 'r \<times> 'w"
    and stop :: "'r \<Rightarrow> 'w \<Rightarrow> 'r \<times> 'w" and is_running :: "'r \<Rightarrow> 'w \<Rightarrow> bool \<times> 'r \<times> 'w"
    and owner :: "'r \<Rightarrow> int option" and alive :: "'w \<Rightarrow> int \<Rightarrow> bool" and signalled :: "'w \<Rightarrow> int \<Rightarrow> bool"
  assumes start_ok: "start b a f r w = (True, r', w') \<Longrightarrow> \<exists>p. owner r' = Some p \<and> alive w' p"
    and stop_signals: "owner r = Some p \<Longrightarrow> stop r w = (r', w') \<Longrightarrow> signalled w' p \<and> owner r' = None"
    and stop_idle: "owner r = None \<Longrightarrow> stop r w = (r', w') \<Longrightarrow> r' = r \<and> w' = w"
    and running_iff: "owner r = Some p \<Longrightarrow> is_running r w = (running, r', w') \<Longrightarrow> running = alive w p"
    and not_running_idle: "is_running r w = (False, r', w') \<Longrightarrow> owner r' = None"
    and running_same: "is_running r w = (True, r', w') \<Longrightarrow> r' = r \<and> w' = w"
begin

lemma start_then_running:
  assumes "start b a f r w = (True, r', w')"
  shows "fst (is_running r' w')"
proof -
  obtain p where "owner r' = Some p" "alive w' p" using start_ok [OF assms] by blast
  with running_iff show ?thesis by (metis prod.collapse)
qed

lemma start_then_stop:
  assumes "start b a f r w = (True, r', w')" and "stop r' w' = (r'', w'')"
  shows "\<exists>p. owner r' = Some p \<and> signalled w'' p \<and> owner r'' = None"
  using start_ok [OF assms(1)] stop_signals assms(2) by blast

lemma stop_twice:
  assumes "stop r w = (r', w')"
  shows "stop r' w' = (r', w')"
proof (cases "owner r")
  case None
  with stop_idle assms show ?thesis by metis
next
  case (Some p)
  with stop_signals [OF _ assms] have "owner r' = None" by blast
  with stop_idle show ?thesis by (metis prod.collapse)
qed

end

definition child_alive :: "os \<Rightarrow> int \<Rightarrow> bool" where
  "child_alive s p \<longleftrightarrow> map_of (os_children s) p = Some Running"

definition runner_owner :: "CmdRunner \<Rightarrow> int option" where
  "runner_owner r = (if 0 < runner_pid r then Some (runner_pid r) else None)"

lemma start_cases:
  obtains (failed) "fst (Runner_Start b a f r s) = False"
  | (started) n where "os_forks s = n # tl (os_forks s)" "0 < n"
      "Runner_Start b a f r s = (True, r\<lparr>runner_output := f, runner_pid := int n\<rparr>,
        s\<lparr>os_forks := tl (os_forks s), os_children := AList.update (int n) Running (os_children s),
          os_images := os_images s @ [\<lparr>img_pid = int n, img_bin = b, img_argv = b # a, img_output = f, img_pdeathsig = True\<rparr>]\<rparr>)"
proof (cases "os_forks s = [] \<or> hd (os_forks s) = 0")
  case True
  then have "fst (Runner_Start b a f r s) = False"
    by (auto simp: Runner_Start_def sys_fork_def Let_def split: list.splits)
  then show thesis by (rule failed)
next
  case False
  then obtain n ns where n: "os_forks s = n # ns" "n \<noteq> 0" by (cases "os_forks s") auto
  then show thesis
    by (intro started [of n]) (simp_all add: Runner_Start_def sys_fork_def Let_def)
qed

interpretation runner: process_runner Runner_Start Runner_Stop Runner_IsRunning runner_owner child_alive
  "\<lambda>s p. p \<in> set (os_terms s)"
proof (unfold_locales, goal_cases)
  case (1 b a f r w r' w')
  then show ?case
    by (cases rule: start_cases [of b a f r w]) (auto simp: runner_owner_def child_alive_def update_conv')
next
  case (2 r p w r' w')
  then have "r' = r\<lparr>runner_pid := - 1\<rparr>" "w' = snd (Runner_Stop r w)" "p = runner_pid r" "0 < p"
    by (auto simp: Runner_Stop_def runner_owner_def Let_def split_beta split: if_splits)
  then show ?case by (simp add: terms_Stop runner_owner_def)
next
  case (3 r w r' w')
  then show ?case by (auto simp: Runner_Stop_def runner_owner_def split: if_splits)
next
  case (4 r p w b r' w')
  then show ?case
    by (auto simp: Runner_IsRunning_def runner_owner_def child_alive_def sys_waitpid_def
        split: if_splits option.splits child_state.splits)
next
  case (5 r w r' w')
  then show ?case
    by (auto simp: Runner_IsRunning_def runner_owner_def Let_def split_beta split: if_splits)
next
  case (6 r w r' w')
  then show ?case
    by (auto simp: Runner_IsRunning_def sys_waitpid_def split: if_splits option.splits child_state.splits)
qed

end
