(* ===== verification/ProcScan.thy ===== *)
theory ProcScan
  imports CmdRunner
begin

text \<open>
  The look-up of a process or thread by name in \<open>/proc\<close> (\<open>src/worker/src/diagnose/bpf_diagnoser.cpp\<close>,
  copied in \<open>perf_diagnoser.cpp\<close>), and the rotation of the diagnose files that both diagnosers
  implement. Directories are listings in an unspecified order; a file has a modification time
  and a size. Files seen by the rotation are those of the output directory.
\<close>

section \<open>Processes by name\<close>

type_synonym dir_listing = "string \<Rightarrow> string list option"

text \<open>\<open>strtoul\<close> saturates at the largest \<open>unsigned long\<close>; the conversion to \<open>pid_t\<close> truncates.\<close>

definition strtoul_pid :: "string \<Rightarrow> int" where
  "strtoul_pid name = sint (word_of_int (min (digits_val (takeWhile is_digit name)) (2 ^ 64 - 1)) :: i32)"

text \<open>The read of at most 255 bytes, the conversion to a string and the removal of the line end.\<close>

definition read_comm :: "file_system \<Rightarrow> string \<Rightarrow> string option" where
  "read_comm fs path =
     (case fs path of
        None \<Rightarrow> None
      | Some content \<Rightarrow>
          if content = [] then None
          else let comm = takeWhile (\<lambda>c. c \<noteq> CHR 0x00) (take 255 content)
               in Some (if comm \<noteq> [] \<and> last comm = newline then butlast comm else comm))"

fun scan_comm :: "(int \<Rightarrow> string) \<Rightarrow> file_system \<Rightarrow> string \<Rightarrow> string list \<Rightarrow> int" where
  "scan_comm path fs name [] = 0"
| "scan_comm path fs name (ent # ents) =
     (if ent = [] \<or> \<not> is_digit (hd ent) then scan_comm path fs name ents
      else let p = strtoul_pid ent
           in case read_comm fs (path p) of
                None \<Rightarrow> scan_comm path fs name ents
              | Some comm \<Rightarrow> if comm = name then p else scan_comm path fs name ents)"

definition comm_path :: "int \<Rightarrow> string" where
  "comm_path p = ''/proc/'' @ show_int p @ ''/comm''"

definition task_path :: "int \<Rightarrow> int \<Rightarrow> string" where
  "task_path p t = ''/proc/'' @ show_int p @ ''/task/'' @ show_int t @ ''/comm''"

definition read_pid_by_name :: "dir_listing \<Rightarrow> file_system \<Rightarrow> string \<Rightarrow> int" where
  "read_pid_by_name ls fs pname =
     (case ls ''/proc'' of None \<Rightarrow> 0 | Some names \<Rightarrow> scan_comm comm_path fs pname names)"

definition read_tid_by_name :: "dir_listing \<Rightarrow> file_system \<Rightarrow> string \<Rightarrow> string \<Rightarrow> int" where
  "read_tid_by_name ls fs pname tname =
     (let pid = read_pid_by_name ls fs pname
      in if pid = 0 then 0
         else case ls (''/proc/'' @ show_int pid @ ''/task'') of
                None \<Rightarrow> 0
              | Some names \<Rightarrow> scan_comm (task_path pid) fs tname names)"

text \<open>A listing of \<open>/proc\<close>: the process numbers and names that are not numbers.\<close>

definition pid_entry :: "string \<Rightarrow> bool" where
  "pid_entry ent \<longleftrightarrow> ent \<noteq> [] \<and> is_digit (hd ent)"

definition listed_pids :: "string list \<Rightarrow> int list" where
  "listed_pids names = map digits_val (filter pid_entry names)"

definition pids_ok :: "string list \<Rightarrow> bool" where
  "pids_ok names \<longleftrightarrow> list_all (\<lambda>ent. ent = show_dec (digits_val ent) \<and> 0 < digits_val ent \<and> digits_val ent < 2 ^ 31)
     (filter pid_entry names)"

lemma strtoul_pid_show:
  assumes "0 \<le> p" and "p < 2 ^ 31"
  shows "strtoul_pid (show_dec p) = p"
proof -
  have "takeWhile is_digit (show_dec p) = show_dec p"
    using show_dec_digits [OF assms(1)] by (simp add: list_all_iff)
  then have "strtoul_pid (show_dec p) = sint (word_of_int p :: i32)"
    using assms unfolding strtoul_pid_def by (simp only: digits_val_show_dec) (simp add: min_def)
  also have "\<dots> = p" unfolding sint_sbintrunc' using assms by (intro signed_take_bit_int_eq_self) simp_all
  finally show ?thesis .
qed

lemma scan_comm_find:
  assumes "pids_ok names"
  shows "scan_comm path fs name names =
    (case List.find (\<lambda>p. read_comm fs (path p) = Some name) (listed_pids names) of None \<Rightarrow> 0 | Some p \<Rightarrow> p)"
  using assms
proof (induction names)
  case (Cons ent ents)
  then have IH: "scan_comm path fs name ents =
    (case List.find (\<lambda>p. read_comm fs (path p) = Some name) (listed_pids ents) of None \<Rightarrow> 0 | Some p \<Rightarrow> p)"
    by (simp add: pids_ok_def split: if_splits)
  show ?case
  proof (cases "pid_entry ent")
    case False
    with IH show ?thesis by (auto simp: pid_entry_def listed_pids_def)
  next
    case True
    define p where "p = digits_val ent"
    have "ent = show_dec p" "0 < p" "p < 2 ^ 31"
      using Cons.prems True by (auto simp: pids_ok_def p_def)
    then have "strtoul_pid ent = p" using strtoul_pid_show [of p] by simp
    then show ?thesis
      using IH True by (auto simp: pid_entry_def listed_pids_def p_def [symmetric] split: option.splits)
  qed
qed (simp add: listed_pids_def)

lemma listed_pids_pos: "pids_ok names \<Longrightarrow> p \<in> set (listed_pids names) \<Longrightarrow> 0 < p"
  by (auto simp: pids_ok_def listed_pids_def list_all_iff)

text \<open>
  C29: Looking a process up by name returns the number of a listed process whose command name is
  that name, the first such in the listing, and returns 0 exactly when there is none.
\<close>

theorem pid_lookup_correct:
  assumes "ls ''/proc'' = Some names" and "pids_ok names"
  shows "(if \<exists>p \<in> set (listed_pids names). read_comm fs (comm_path p) = Some pname
     then read_pid_by_name ls fs pname \<in> set (listed_pids names) \<and>
          read_comm fs (comm_path (read_pid_by_name ls fs pname)) = Some pname
     else read_pid_by_name ls fs pname = 0)"
proof -
  have "read_pid_by_name ls fs pname =
    (case List.find (\<lambda>p. read_comm fs (comm_path p) = Some pname) (listed_pids names) of None \<Rightarrow> 0 | Some p \<Rightarrow> p)"
    using assms by (simp add: read_pid_by_name_def scan_comm_find)
  then show ?thesis
    by (auto simp: find_Some_iff find_None_iff split: option.splits)
qed

definition demo_proc :: file_system where
  "demo_proc path = (if path = ''/proc/1/comm'' then Some (''init'' @ [newline])
     else if path = ''/proc/42/comm'' then Some (''nginx'' @ [newline]) else None)"

lemma demo_paths: "comm_path 1 = ''/proc/1/comm''" "comm_path 42 = ''/proc/42/comm''"
  by code_simp+

lemma demo_proc_nginx: "read_comm demo_proc (comm_path 42) = Some ''nginx''"
  by (simp add: read_comm_def demo_paths demo_proc_def)

theorem pid_lookup_correct_witness:
  "read_pid_by_name (\<lambda>d. Some [''self'', ''1'', ''42'']) demo_proc ''nginx'' = 42"
proof -
  have names: "pids_ok [''self'', ''1'', ''42'']" "listed_pids [''self'', ''1'', ''42''] = [1, 42]"
    by code_simp+
  have "read_comm demo_proc (comm_path 1) = Some ''init''"
    by (simp add: read_comm_def demo_paths demo_proc_def)
  with pid_lookup_correct [of "\<lambda>d. Some [''self'', ''1'', ''42'']" _ demo_proc "''nginx''", OF refl names(1)] names(2)
    demo_proc_nginx
  show ?thesis by (auto split: if_splits)
qed

end
