(* ===== verification/FileRotation.thy ===== *)
theory FileRotation
  imports ProcScan
begin

text \<open>
  The rotation of diagnose files: \<open>cleanup_files\<close> of \<open>BpfDiagnoser\<close> and of \<open>PerfDiagnoser\<close>
  (\<open>src/worker/src/diagnose/\<close>) are two copies of one algorithm. The locale \<open>file_rotation\<close>
  states the contract, keep the newest files of a kind, and both copies interpret it.
\<close>

section \<open>Files\<close>

record fstate =
  fs_dirs :: "string list"
  fs_meta :: "(string \<times> int \<times> int) list"

text \<open>The names \<open>readdir\<close> returns for a directory, and \<open>stat\<close> and \<open>unlink\<close> of a path.\<close>

definition dir_path :: "string \<Rightarrow> string \<Rightarrow> string" where
  "dir_path dir name = dir @ ''/'' @ name"

definition entry_of :: "string \<Rightarrow> string \<Rightarrow> string option" where
  "entry_of dir path =
     (let name = drop (length dir + 1) path
      in if path = dir_path dir name \<and> name \<noteq> [] \<and> CHR ''/'' \<notin> set name then Some name else None)"

definition dir_names :: "string \<Rightarrow> fstate \<Rightarrow> string list" where
  "dir_names dir s = List.map_filter (\<lambda>(path, _). entry_of dir path) (fs_meta s)"

definition sys_stat :: "string \<Rightarrow> fstate \<Rightarrow> (int \<times> int) option" where
  "sys_stat path s = map_of (fs_meta s) path"

definition sys_unlink :: "string \<Rightarrow> fstate \<Rightarrow> fstate" where
  "sys_unlink path s = s\<lparr>fs_meta := AList.delete path (fs_meta s)\<rparr>"

definition fs_ok :: "fstate \<Rightarrow> bool" where
  "fs_ok s \<longleftrightarrow> distinct (map fst (fs_meta s))"

section \<open>The two copies of cleanup\_files\<close>

fun matching_files :: "string \<Rightarrow> string \<Rightarrow> fstate \<Rightarrow> string list \<Rightarrow> (int \<times> string) list" where
  "matching_files dir pfx s [] = []"
| "matching_files dir pfx s (name # names) =
     (if name \<noteq> [] \<and> hd name = CHR ''.'' then matching_files dir pfx s names
      else if \<not> starts_with pfx name then matching_files dir pfx s names
      else case sys_stat (dir_path dir name) s of
             None \<Rightarrow> matching_files dir pfx s names
           | Some (mtime, sz) \<Rightarrow> (mtime, dir_path dir name) # matching_files dir pfx s names)"

definition Bpf_cleanup_files ::
    "int \<Rightarrow> string \<Rightarrow> (string list \<Rightarrow> string list) \<Rightarrow> string \<Rightarrow> fstate \<Rightarrow> fstate" where
  "Bpf_cleanup_files limit_file_num output_dir ord type_prefix s =
     (if limit_file_num \<le> 0 then s
      else if output_dir \<notin> set (fs_dirs s) then s
      else let files = matching_files output_dir type_prefix s (ord (dir_names output_dir s))
           in if int (length files) \<le> limit_file_num then s
              else let to_delete = int (length files) - limit_file_num
                   in fold (\<lambda>f. sys_unlink (snd f)) (take (nat to_delete) (sort files)) s)"

definition Perf_cleanup_files ::
    "int \<Rightarrow> string \<Rightarrow> (string list \<Rightarrow> string list) \<Rightarrow> string \<Rightarrow> fstate \<Rightarrow> fstate" where
  "Perf_cleanup_files limit_file_num output_dir ord pfx s =
     (if limit_file_num \<le> 0 then s
      else if output_dir \<notin> set (fs_dirs s) then s
      else let files = matching_files output_dir pfx s (ord (dir_names output_dir s))
           in if int (length files) \<le> limit_file_num then s
              else let to_delete = int (length files) - limit_file_num
                   in fold (\<lambda>f. sys_unlink (snd f)) (take (nat to_delete) (sort files)) s)"

section \<open>The contract\<close>

text \<open>The files of a kind in a directory, as modification time and path.\<close>

definition rotation_match :: "string \<Rightarrow> string \<Rightarrow> string \<Rightarrow> bool" where
  "rotation_match dir pfx path =
     (case entry_of dir path of None \<Rightarrow> False
      | Some name \<Rightarrow> hd name \<noteq> CHR ''.'' \<and> starts_with pfx name)"

definition kind_files :: "string \<Rightarrow> string \<Rightarrow> fstate \<Rightarrow> (int \<times> string) list" where
  "kind_files dir pfx s =
     map (\<lambda>(path, mtime, sz). (mtime, path)) (filter (\<lambda>(path, _). rotation_match dir pfx path) (fs_meta s))"

definition drop_files :: "string list \<Rightarrow> fstate \<Rightarrow> fstate" where
  "drop_files ps s = s\<lparr>fs_meta := filter (\<lambda>(path, _). path \<notin> set ps) (fs_meta s)\<rparr>"

lemma fs_ok_drop_files: "fs_ok s \<Longrightarrow> fs_ok (drop_files ps s)"
  by (auto simp: fs_ok_def drop_files_def intro: distinct_map_filter)

lemma stat_drop_files: "path \<notin> set ps \<Longrightarrow> sys_stat path (drop_files ps s) = sys_stat path s"
proof -
  assume "path \<notin> set ps"
  then have "map_of (filter (\<lambda>(p, _). p \<notin> set ps) m) path = map_of m path" for m :: "(string \<times> int \<times> int) list"
    by (induction m) auto
  then show ?thesis by (simp add: sys_stat_def drop_files_def)
qed

lemma stat_drop_files_Some: "sys_stat path (drop_files ps s) = Some x \<Longrightarrow> sys_stat path s = Some x"
proof (cases "path \<in> set ps")
  case True
  then have "map_of (filter (\<lambda>(p, _). p \<notin> set ps) m) path = None" for m :: "(string \<times> int \<times> int) list"
    by (induction m) auto
  then show "sys_stat path (drop_files ps s) = Some x \<Longrightarrow> sys_stat path s = Some x" by (simp add: sys_stat_def drop_files_def)
qed (simp add: stat_drop_files)

lemma kind_files_drop:
  "kind_files dir pfx (drop_files ps s) = filter (\<lambda>f. snd f \<notin> set ps) (kind_files dir pfx s)"
proof -
  have "map (\<lambda>(p, mt, z). (mt, p)) (filter (\<lambda>(p, _). Q p) (filter (\<lambda>(p, _). p \<notin> set ps) m)) =
      filter (\<lambda>f. snd f \<notin> set ps) (map (\<lambda>(p, mt, z). (mt, p)) (filter (\<lambda>(p, _). Q p) m))"
    for Q and m :: "(string \<times> int \<times> int) list"
    by (induction m) auto
  then show ?thesis by (simp add: kind_files_def drop_files_def)
qed

lemma kind_paths_distinct: "fs_ok s \<Longrightarrow> distinct (map snd (kind_files dir pfx s))"
proof -
  have "map snd (map (\<lambda>(p, mt, z). (mt, p)) m) = map fst m" for m :: "(string \<times> int \<times> int) list"
    by (induction m) auto
  moreover assume "fs_ok s"
  ultimately show ?thesis unfolding fs_ok_def kind_files_def by (simp only: distinct_map_filter)
qed

lemma filter_drop_taken:
  assumes "distinct (map snd xs)"
  shows "filter (\<lambda>f. snd f \<notin> set (map snd (take k xs))) xs = drop k xs"
  using assms
proof (induction xs arbitrary: k)
  case (Cons x xs)
  show ?case
  proof (cases k)
    case (Suc j)
    with Cons.prems have "filter (\<lambda>f. snd f \<notin> set (map snd (take k (x # xs)))) (x # xs) =
        filter (\<lambda>f. snd f \<notin> set (map snd (take j xs))) xs"
      by (auto intro!: filter_cong dest: image_eqI [where f = snd, rotated])
    with Suc Cons show ?thesis by simp
  qed simp
qed simp

lemma sort_filter: "sort (filter P xs) = filter P (sort xs)"
  by (simp add: filter_sort)

locale file_rotation =
  fixes cleanup :: "int \<Rightarrow> string \<Rightarrow> (string list \<Rightarrow> string list) \<Rightarrow> string \<Rightarrow> fstate \<Rightarrow> fstate"
  assumes rotates: "0 < limit \<Longrightarrow> dir \<in> set (fs_dirs s) \<Longrightarrow> iteration_order ord \<Longrightarrow> fs_ok s \<Longrightarrow>
      cleanup limit dir ord pfx s =
        drop_files (map snd (take (length (kind_files dir pfx s) - nat limit) (sort (kind_files dir pfx s)))) s"
    and disabled: "limit \<le> 0 \<or> dir \<notin> set (fs_dirs s) \<Longrightarrow> cleanup limit dir ord pfx s = s"
begin

lemma cleanup_cases:
  assumes "iteration_order ord" and "fs_ok s"
  obtains k where "cleanup limit dir ord pfx s = drop_files (map snd (take k (sort (kind_files dir pfx s)))) s"
proof (cases "0 < limit \<and> dir \<in> set (fs_dirs s)")
  case True
  with rotates assms that show thesis by blast
next
  case False
  moreover have "drop_files [] s = s" by (simp add: drop_files_def)
  ultimately show thesis using disabled [of limit dir s ord pfx] that [of 0] by auto
qed

lemma keeps_ok:
  assumes "iteration_order ord" and "fs_ok s"
  shows "fs_ok (cleanup limit dir ord pfx s)"
  using cleanup_cases [OF assms] assms(2) by (metis fs_ok_drop_files)

text \<open>What remains of the kind is the newest files.\<close>

lemma remaining:
  assumes "0 < limit" and "dir \<in> set (fs_dirs s)" and "iteration_order ord" and "fs_ok s"
  shows "sort (kind_files dir pfx (cleanup limit dir ord pfx s)) =
    last_n (nat limit) (sort (kind_files dir pfx s))"
proof -
  let ?K = "kind_files dir pfx s"
  have "distinct (map snd (sort ?K))"
    using kind_paths_distinct [OF assms(4), of dir pfx] by (simp add: distinct_map inj_on_def)
  then have "filter (\<lambda>f. snd f \<notin> set (map snd (take k (sort ?K)))) (sort ?K) = drop k (sort ?K)" for k
    by (rule filter_drop_taken)
  then show ?thesis
    unfolding rotates [OF assms] kind_files_drop sort_filter last_n_def by simp
qed

lemma others_untouched:
  assumes "iteration_order ord" and "fs_ok s" and "\<not> rotation_match dir pfx path"
  shows "sys_stat path (cleanup limit dir ord pfx s) = sys_stat path s"
proof -
  obtain k where "cleanup limit dir ord pfx s = drop_files (map snd (take k (sort (kind_files dir pfx s)))) s"
    using cleanup_cases [OF assms(1,2)] by blast
  moreover have "path \<notin> set (map snd (take k (sort (kind_files dir pfx s))))" for k
    using assms(3) by (auto dest!: in_set_takeD simp: kind_files_def)
  ultimately show ?thesis by (simp add: stat_drop_files)
qed

end

section \<open>Both copies meet the contract\<close>

lemma matching_files_concat:
  "matching_files dir pfx s names = concat (map (\<lambda>name.
     if name \<noteq> [] \<and> hd name = CHR ''.'' \<or> \<not> starts_with pfx name then []
     else case sys_stat (dir_path dir name) s of None \<Rightarrow> [] | Some (mt, z) \<Rightarrow> [(mt, dir_path dir name)]) names)"
  by (induction names) (auto split: option.splits)

lemma entry_of_Some: "entry_of dir path = Some name \<longleftrightarrow> path = dir_path dir name \<and> name \<noteq> [] \<and> CHR ''/'' \<notin> set name"
  by (auto simp: entry_of_def dir_path_def Let_def)

lemma matching_files_kind:
  assumes "fs_ok s"
  shows "matching_files dir pfx s (dir_names dir s) = kind_files dir pfx s"
proof -
  have "matching_files dir pfx s (List.map_filter (\<lambda>(path, _). entry_of dir path) m) =
      map (\<lambda>(path, mt, z). (mt, path)) (filter (\<lambda>(path, _). rotation_match dir pfx path) m)"
    if "set m \<subseteq> set (fs_meta s)" for m
    using that
  proof (induction m)
    case (Cons e m)
    obtain path mt z where e: "e = (path, mt, z)" by (cases e) auto
    with Cons.prems assms have stat: "sys_stat path s = Some (mt, z)"
      by (simp add: sys_stat_def fs_ok_def)
    show ?case
    proof (cases "entry_of dir path")
      case None
      with e Cons show ?thesis by (simp add: map_filter_simps rotation_match_def)
    next
      case (Some name)
      then have "path = dir_path dir name" "name \<noteq> []" by (simp_all add: entry_of_Some)
      with e Some stat Cons show ?thesis by (auto simp: map_filter_simps rotation_match_def)
    qed
  qed (simp add: map_filter_simps)
  then show ?thesis by (simp add: dir_names_def kind_files_def)
qed

lemma sort_matching_files:
  assumes "iteration_order ord" and "fs_ok s"
  shows "sort (matching_files dir pfx s (ord (dir_names dir s))) = sort (kind_files dir pfx s)"
    and "length (matching_files dir pfx s (ord (dir_names dir s))) = length (kind_files dir pfx s)"
proof -
  have "mset (ord (dir_names dir s)) = mset (dir_names dir s)"
    using assms(1) by (simp add: iteration_order_def)
  then have "mset (matching_files dir pfx s (ord (dir_names dir s))) = mset (matching_files dir pfx s (dir_names dir s))"
    unfolding matching_files_concat by (rule mset_concat_map_cong)
  then have same: "mset (matching_files dir pfx s (ord (dir_names dir s))) = mset (kind_files dir pfx s)"
    by (simp add: matching_files_kind [OF assms(2)])
  then show "sort (matching_files dir pfx s (ord (dir_names dir s))) = sort (kind_files dir pfx s)"
    by (metis sorted_list_of_multiset_mset)
  show "length (matching_files dir pfx s (ord (dir_names dir s))) = length (kind_files dir pfx s)"
    using same by (metis size_mset)
qed

lemma unlink_all: "fold (\<lambda>f. sys_unlink (snd f)) xs s = drop_files (map snd xs) s"
proof (induction xs arbitrary: s)
  case Nil
  then show ?case by (simp add: drop_files_def)
next
  case (Cons x xs)
  have "drop_files ps (sys_unlink p s) = drop_files (p # ps) s" for p ps
  proof -
    have "filter (\<lambda>(path, _). path \<notin> set ps) (AList.delete p m) = filter (\<lambda>(path, _). path \<notin> set (p # ps)) m"
      for m :: "(string \<times> int \<times> int) list"
      by (induction m) auto
    then show ?thesis by (simp add: drop_files_def sys_unlink_def)
  qed
  with Cons show ?case by simp
qed

text \<open>Rotation only removes files.\<close>

lemma bpf_cleanup_only_removes:
  "sys_stat path (Bpf_cleanup_files limit dir ord pfx s) = Some x \<Longrightarrow> sys_stat path s = Some x"
  by (auto simp: Bpf_cleanup_files_def Let_def unlink_all split: if_splits dest: stat_drop_files_Some)

interpretation bpf_rot: file_rotation Bpf_cleanup_files
  by unfold_locales
     (auto simp: Bpf_cleanup_files_def Let_def sort_matching_files unlink_all nat_diff_distrib drop_files_def)

interpretation perf_rot: file_rotation Perf_cleanup_files
  by unfold_locales
     (auto simp: Perf_cleanup_files_def Let_def sort_matching_files unlink_all nat_diff_distrib drop_files_def)

text \<open>
  C30: After \<open>BpfDiagnoser::cleanup_files\<close> the files of the given kind in the output directory are
  exactly the newest of them, by modification time and then path, up to the limit, whatever the
  order in which the directory is read.
\<close>

theorem bpf_rotation_keeps_newest:
  assumes "0 < limit" and "dir \<in> set (fs_dirs s)" and "iteration_order ord" and "fs_ok s"
  shows "sort (kind_files dir pfx (Bpf_cleanup_files limit dir ord pfx s)) =
    last_n (nat limit) (sort (kind_files dir pfx s))"
  using assms by (rule bpf_rot.remaining)

definition demo_files :: fstate where
  "demo_files = \<lparr>fs_dirs = [''/d''], fs_meta = [(''/d/perf_a'', 30, 1), (''/d/offcpu_b'', 5, 1),
     (''/d/perf_c'', 10, 1), (''/d/perf_d'', 20, 1)]\<rparr>"

theorem bpf_rotation_keeps_newest_witness:
  "sort (kind_files ''/d'' ''perf'' (Bpf_cleanup_files 2 ''/d'' rev ''perf'' demo_files)) =
    last_n (nat 2) (sort (kind_files ''/d'' ''perf'' demo_files))"
  by (rule bpf_rotation_keeps_newest) (simp_all add: demo_files_def fs_ok_def)

text \<open>
  \<open>PerfDiagnoser::cleanup_files\<close> never touches a file that is not of the given kind in the
  output directory: hidden files, files of other tools and files elsewhere keep their state.
\<close>

lemma perf_rotation_confined:
  assumes "iteration_order ord" and "fs_ok s" and "\<not> rotation_match dir pfx path"
  shows "sys_stat path (Perf_cleanup_files limit dir ord pfx s) = sys_stat path s"
  using assms by (rule perf_rot.others_untouched)

end
