(* ===== verification/BpfDiagnoser.thy ===== *)
theory BpfDiagnoser
  imports FileRotation
begin

text \<open>
  The launcher of the off-CPU and profile tools (\<open>src/worker/include/diagnose/bpf_diagnoser.h\<close>,
  \<open>bpf_diagnoser.cpp\<close>). The vector of running tools is modelled with its capacity, because
  \<open>CmdRunner\<close> has a destructor that signals the child and no move operations: every temporary,
  every reallocation and every erasure copies runners and destroys the originals.
\<close>

section \<open>State\<close>

record CppDiagnoseEvent =
  ev_type :: string
  ev_process_name :: string
  ev_thread_name :: string
  ev_file_path :: string
  ev_timestamp :: int
  ev_cpu_percent :: double

definition CppDiagnoseEvent_new :: CppDiagnoseEvent where
  "CppDiagnoseEvent_new = \<lparr>ev_type = '''', ev_process_name = '''', ev_thread_name = '''', ev_file_path = '''',
     ev_timestamp = 0, ev_cpu_percent = Fin 0\<rparr>"

record OffcpuConfig =
  oc_process :: string
  oc_thread :: string
  oc_min_block_us :: int
  oc_max_block_us :: int
  oc_interval_s :: int

record ProfileConfig =
  pc_process :: string
  pc_thread :: string
  pc_max_nr :: int
  pc_max_size_kb :: int
  pc_cpus :: string

record RunnerEntry =
  re_runner :: CmdRunner
  re_pending :: CppDiagnoseEvent

record BpfDiagnoser =
  bd_events :: "CppDiagnoseEvent list"
  bd_output_dir :: string
  bd_offcpu_bin :: string
  bd_profile_bin :: string
  bd_limit_file_num :: int
  bd_limit_file_size_mb :: int
  bd_runners :: "RunnerEntry list"
  bd_capacity :: nat
  bd_offcpu_configs :: "OffcpuConfig list"
  bd_profile_configs :: "ProfileConfig list"

definition BpfDiagnoser_new :: BpfDiagnoser where
  "BpfDiagnoser_new = \<lparr>bd_events = [], bd_output_dir = '''', bd_offcpu_bin = '''', bd_profile_bin = '''',
     bd_limit_file_num = 3, bd_limit_file_size_mb = 50, bd_runners = [], bd_capacity = 0,
     bd_offcpu_configs = [], bd_profile_configs = []\<rparr>"

text \<open>
  The world of a diagnoser: processes, files, the listing and the files of \<open>/proc\<close>, the order
  directories are read in, and \<open>time(nullptr)\<close>.
\<close>

record world =
  w_os :: os
  w_fs :: fstate
  w_ls :: dir_listing
  w_proc :: file_system
  w_ord :: "string list \<Rightarrow> string list"
  w_time :: int

section \<open>Init\<close>

text \<open>\<open>mkdir\<close> needs the parent; the root and the working directory exist.\<close>

definition sys_mkdir :: "string \<Rightarrow> fstate \<Rightarrow> fstate" where
  "sys_mkdir path s =
     (let parent_ok = (case rfind_char CHR ''/'' path of
            None \<Rightarrow> True
          | Some i \<Rightarrow> i = 0 \<or> take i path \<in> set (fs_dirs s))
      in if path \<notin> set (fs_dirs s) \<and> parent_ok then s\<lparr>fs_dirs := fs_dirs s @ [path]\<rparr> else s)"

fun mkdir_loop :: "string \<Rightarrow> nat list \<Rightarrow> fstate \<Rightarrow> fstate" where
  "mkdir_loop dir [] s = s"
| "mkdir_loop dir (pos # ps) s =
     (if pos = length dir \<or> dir ! pos = CHR ''/'' then mkdir_loop dir ps (sys_mkdir (take pos dir) s)
      else mkdir_loop dir ps s)"

definition Bpf_Init :: "BpfDiagnoser \<Rightarrow> world \<Rightarrow> world" where
  "Bpf_Init d w = w\<lparr>w_fs := mkdir_loop (bd_output_dir d) [1..<length (bd_output_dir d) + 1] (w_fs w)\<rparr>"

section \<open>Launching\<close>

definition make_tag :: "string \<Rightarrow> string \<Rightarrow> string" where
  "make_tag process thread = process @ (if thread = [] then [] else ''_'' @ thread)"

definition pid_args :: "world \<Rightarrow> string \<Rightarrow> string list" where
  "pid_args w process =
     (if process = [] then []
      else let pid = read_pid_by_name (w_ls w) (w_proc w) process in if 0 < pid then [''-p'', show_int pid] else [])"

definition tid_args :: "world \<Rightarrow> string \<Rightarrow> string \<Rightarrow> string list" where
  "tid_args w process thread =
     (if thread = [] \<or> process = [] then []
      else let tid = read_tid_by_name (w_ls w) (w_proc w) process thread
           in if 0 < tid then [''-t'', show_int tid] else [])"

text \<open>
  \<open>runners_.push_back(std::move(entry))\<close>: a full vector is reallocated, which copies its
  elements and destroys the old ones in order.
\<close>

definition push_runner :: "RunnerEntry \<Rightarrow> BpfDiagnoser \<Rightarrow> os \<Rightarrow> BpfDiagnoser \<times> os" where
  "push_runner entry d s =
     (if length (bd_runners d) < bd_capacity d then (d\<lparr>bd_runners := bd_runners d @ [entry]\<rparr>, s)
      else (d\<lparr>bd_runners := bd_runners d @ [entry], bd_capacity := max 1 (2 * bd_capacity d)\<rparr>,
            fold (\<lambda>e. Runner_destroy (re_runner e)) (bd_runners d) s))"

text \<open>The common end of both launchers: start, store a copy, then destroy entry and runner.\<close>

definition launch_tool ::
    "string \<Rightarrow> string list \<Rightarrow> CppDiagnoseEvent \<Rightarrow> BpfDiagnoser \<Rightarrow> world \<Rightarrow> BpfDiagnoser \<times> world" where
  "launch_tool bin args ev d w =
     (let (ok, runner, s) = Runner_Start bin args (ev_file_path ev) CmdRunner_new (w_os w);
          (d, s) = (if ok
             then let entry = \<lparr>re_runner = runner, re_pending = ev\<rparr>;
                      (d, s) = push_runner entry d s
                  in (d, Runner_destroy (re_runner entry) s)
             else (d, s));
          s = Runner_destroy runner s
      in (d, w\<lparr>w_os := s\<rparr>))"

definition offcpu_file :: "string \<Rightarrow> OffcpuConfig \<Rightarrow> int \<Rightarrow> string" where
  "offcpu_file dir cfg now =
     dir @ ''/offcpu_'' @ make_tag (oc_process cfg) (oc_thread cfg) @ ''_'' @ show_int now @ ''.data''"

definition offcpu_args :: "OffcpuConfig \<Rightarrow> BpfDiagnoser \<Rightarrow> world \<Rightarrow> string list" where
  "offcpu_args cfg d w =
     [''-m'', show_int (oc_min_block_us cfg), ''-M'', show_int (oc_max_block_us cfg),
      ''-o'', offcpu_file (bd_output_dir d) cfg (w_time w), ''-i'', show_int (oc_interval_s cfg),
      ''-S'', show_int (bd_limit_file_size_mb d)] @
     pid_args w (oc_process cfg) @ tid_args w (oc_process cfg) (oc_thread cfg)"

definition offcpu_event :: "OffcpuConfig \<Rightarrow> BpfDiagnoser \<Rightarrow> world \<Rightarrow> CppDiagnoseEvent" where
  "offcpu_event cfg d w =
     CppDiagnoseEvent_new\<lparr>ev_type := ''offcpu'', ev_process_name := oc_process cfg, ev_thread_name := oc_thread cfg,
       ev_file_path := offcpu_file (bd_output_dir d) cfg (w_time w), ev_timestamp := w_time w\<rparr>"

definition launch_offcpu :: "OffcpuConfig \<Rightarrow> BpfDiagnoser \<Rightarrow> world \<Rightarrow> BpfDiagnoser \<times> world" where
  "launch_offcpu cfg d w = launch_tool (bd_offcpu_bin d) (offcpu_args cfg d w) (offcpu_event cfg d w) d w"

definition profile_file :: "string \<Rightarrow> ProfileConfig \<Rightarrow> int \<Rightarrow> string" where
  "profile_file dir cfg now =
     dir @ ''/profile_'' @ make_tag (pc_process cfg) (pc_thread cfg) @ ''_'' @ show_int now @ ''.data''"

definition profile_args :: "ProfileConfig \<Rightarrow> BpfDiagnoser \<Rightarrow> world \<Rightarrow> string list" where
  "profile_args cfg d w =
     [''-N'', show_int (pc_max_nr cfg), ''-M'', show_int (pc_max_size_kb cfg),
      ''-C'', pc_cpus cfg, ''-o'', profile_file (bd_output_dir d) cfg (w_time w)] @
     pid_args w (pc_process cfg) @ tid_args w (pc_process cfg) (pc_thread cfg)"

definition profile_event :: "ProfileConfig \<Rightarrow> BpfDiagnoser \<Rightarrow> world \<Rightarrow> CppDiagnoseEvent" where
  "profile_event cfg d w =
     CppDiagnoseEvent_new\<lparr>ev_type := ''profile'', ev_process_name := pc_process cfg, ev_thread_name := pc_thread cfg,
       ev_file_path := profile_file (bd_output_dir d) cfg (w_time w), ev_timestamp := w_time w\<rparr>"

definition launch_profile :: "ProfileConfig \<Rightarrow> BpfDiagnoser \<Rightarrow> world \<Rightarrow> BpfDiagnoser \<times> world" where
  "launch_profile cfg d w = launch_tool (bd_profile_bin d) (profile_args cfg d w) (profile_event cfg d w) d w"

definition start_offcpu :: "string \<Rightarrow> string \<Rightarrow> int \<Rightarrow> int \<Rightarrow> int \<Rightarrow> BpfDiagnoser \<Rightarrow> world \<Rightarrow> BpfDiagnoser \<times> world" where
  "start_offcpu process thread min_block_us max_block_us interval_s d w =
     (let cfg = \<lparr>oc_process = process, oc_thread = thread, oc_min_block_us = min_block_us,
                 oc_max_block_us = max_block_us, oc_interval_s = interval_s\<rparr>
      in launch_offcpu cfg (d\<lparr>bd_offcpu_configs := bd_offcpu_configs d @ [cfg]\<rparr>) w)"

definition start_profile :: "string \<Rightarrow> string \<Rightarrow> int \<Rightarrow> int \<Rightarrow> string \<Rightarrow> BpfDiagnoser \<Rightarrow> world \<Rightarrow> BpfDiagnoser \<times> world" where
  "start_profile process thread max_nr max_size_kb cpus d w =
     (let cfg = \<lparr>pc_process = process, pc_thread = thread, pc_max_nr = max_nr,
                 pc_max_size_kb = max_size_kb, pc_cpus = cpus\<rparr>
      in launch_profile cfg (d\<lparr>bd_profile_configs := bd_profile_configs d @ [cfg]\<rparr>) w)"

section \<open>Collect, Reset and stop\_all\<close>

text \<open>A finished tool: its event is emitted, and old files rotated, when its file has data.\<close>

definition emit_finished :: "CppDiagnoseEvent \<Rightarrow> BpfDiagnoser \<Rightarrow> world \<Rightarrow> BpfDiagnoser \<times> world" where
  "emit_finished ev d w =
     (case sys_stat (ev_file_path ev) (w_fs w) of
        Some (mtime, st_size) \<Rightarrow>
          if 0 < st_size
          then (d\<lparr>bd_events := bd_events d @ [ev]\<rparr>,
                w\<lparr>w_fs := Bpf_cleanup_files (bd_limit_file_num d) (bd_output_dir d) (w_ord w) (ev_type ev) (w_fs w)\<rparr>)
          else (d, w)
      | None \<Rightarrow> (d, w))"

text \<open>
  The reaping loop: \<open>kept\<close> are the elements before the iterator. Erasing shifts the elements
  behind the iterator by copying and destroys the last slot, which still holds the pid of the
  last element.
\<close>

fun reap_loop :: "RunnerEntry list \<Rightarrow> RunnerEntry list \<Rightarrow> BpfDiagnoser \<Rightarrow> world \<Rightarrow> BpfDiagnoser \<times> world" where
  "reap_loop kept [] d w = (d\<lparr>bd_runners := kept\<rparr>, w)"
| "reap_loop kept (e # es) d w =
     (let (running, r, s) = Runner_IsRunning (re_runner e) (w_os w); w = w\<lparr>w_os := s\<rparr>
      in if running then reap_loop (kept @ [e\<lparr>re_runner := r\<rparr>]) es d w
         else let (d, w) = emit_finished (re_pending e) d w;
                  last_slot = (if es = [] then r else re_runner (last es))
              in reap_loop kept es d (w\<lparr>w_os := Runner_destroy last_slot (w_os w)\<rparr>))"

definition fold_launch :: "('c \<Rightarrow> BpfDiagnoser \<Rightarrow> world \<Rightarrow> BpfDiagnoser \<times> world) \<Rightarrow> 'c list \<Rightarrow> BpfDiagnoser \<times> world \<Rightarrow> BpfDiagnoser \<times> world" where
  "fold_launch f cfgs dw = fold (\<lambda>cfg (d, w). f cfg d w) cfgs dw"

definition Bpf_Collect :: "BpfDiagnoser \<Rightarrow> world \<Rightarrow> BpfDiagnoser \<times> world" where
  "Bpf_Collect d w =
     (let (d, w) = reap_loop [] (bd_runners d) d w
      in if bd_runners d = [] \<and> (bd_offcpu_configs d \<noteq> [] \<or> bd_profile_configs d \<noteq> [])
         then fold_launch launch_profile (bd_profile_configs d)
                (fold_launch launch_offcpu (bd_offcpu_configs d) (d, w))
         else (d, w))"

definition Bpf_Reset :: "BpfDiagnoser \<Rightarrow> BpfDiagnoser" where
  "Bpf_Reset d = d\<lparr>bd_events := []\<rparr>"

definition stop_all :: "BpfDiagnoser \<Rightarrow> world \<Rightarrow> BpfDiagnoser \<times> world" where
  "stop_all d w =
     (d\<lparr>bd_runners := []\<rparr>, w\<lparr>w_os := fold (\<lambda>e. Runner_destroy (re_runner e)) (bd_runners d) (w_os w)\<rparr>)"

section \<open>Init creates the output directory\<close>

lemma mkdir_keeps: "p \<in> set (fs_dirs s) \<Longrightarrow> p \<in> set (fs_dirs (sys_mkdir path s))"
  by (simp add: sys_mkdir_def Let_def)

lemma mkdir_loop_keeps: "p \<in> set (fs_dirs s) \<Longrightarrow> p \<in> set (fs_dirs (mkdir_loop dir ps s))"
  by (induction dir ps s rule: mkdir_loop.induct) (simp_all add: mkdir_keeps)

definition dir_prefix_at :: "string \<Rightarrow> nat \<Rightarrow> bool" where
  "dir_prefix_at dir pos \<longleftrightarrow> pos = length dir \<or> dir ! pos = CHR ''/''"

lemma mkdir_parent_made:
  assumes "0 < pos" and "pos \<le> length dir"
    and made: "\<forall>q. 0 < q \<and> q < pos \<and> dir_prefix_at dir q \<longrightarrow> take q dir \<in> set (fs_dirs s)"
  shows "take pos dir \<in> set (fs_dirs (sys_mkdir (take pos dir) s))"
proof -
  have "case rfind_char CHR ''/'' (take pos dir) of None \<Rightarrow> True | Some i \<Rightarrow> i = 0 \<or> take i (take pos dir) \<in> set (fs_dirs s)"
  proof (cases "rfind_char CHR ''/'' (take pos dir)")
    case (Some i)
    then have "i < pos" "dir ! i = CHR ''/''" using assms(2) by (auto simp: rfind_char_Some)
    with made Some show ?thesis by (auto simp: dir_prefix_at_def min_def)
  qed simp
  then show ?thesis by (simp add: sys_mkdir_def Let_def)
qed

lemma mkdir_loop_makes:
  assumes "0 < from" and "to \<le> length dir + 1"
    and "\<forall>q. 0 < q \<and> q < from \<and> dir_prefix_at dir q \<longrightarrow> take q dir \<in> set (fs_dirs s)"
    and "0 < q" and "q < to" and "dir_prefix_at dir q"
  shows "take q dir \<in> set (fs_dirs (mkdir_loop dir [from..<to] s))"
  using assms
proof (induction "to - from" arbitrary: "from" s)
  case 0
  then show ?case by simp
next
  case (Suc n)
  then have upt: "[from..<to] = from # [Suc from..<to]" by (simp add: upt_conv_Cons)
  let ?s = "if dir_prefix_at dir from then sys_mkdir (take from dir) s else s"
  have "take r dir \<in> set (fs_dirs ?s)" if "0 < r" "r < Suc from" "dir_prefix_at dir r" for r
  proof (cases "r = from")
    case True
    with that Suc.hyps(2) Suc.prems show ?thesis by (auto intro: mkdir_parent_made)
  next
    case False
    with that Suc.prems(3) show ?thesis by (auto intro: mkdir_keeps)
  qed
  then have "take q dir \<in> set (fs_dirs (mkdir_loop dir [Suc from..<to] ?s))"
    using Suc.hyps(2) Suc.prems by (intro Suc.hyps(1)) auto
  then show ?case
    unfolding upt mkdir_loop.simps(2) dir_prefix_at_def [symmetric] by (cases "dir_prefix_at dir from") simp_all
qed

text \<open>
  \<open>Init\<close> creates the output directory, whatever its depth and whichever of its parents exist.
\<close>

lemma bpf_init_creates_output_dir:
  assumes "bd_output_dir d \<noteq> []"
  shows "bd_output_dir d \<in> set (fs_dirs (w_fs (Bpf_Init d w)))"
  using mkdir_loop_makes [of 1 "length (bd_output_dir d) + 1" "bd_output_dir d" "w_fs w" "length (bd_output_dir d)"] assms
  by (simp add: Bpf_Init_def dir_prefix_at_def)

definition demo_world :: "nat list \<Rightarrow> world" where
  "demo_world forks = \<lparr>w_os = \<lparr>os_forks = forks, os_children = [], os_images = [], os_terms = [], os_prompt = (\<lambda>_. True)\<rparr>,
     w_fs = \<lparr>fs_dirs = [], fs_meta = []\<rparr>, w_ls = (\<lambda>_. None), w_proc = (\<lambda>_. None), w_ord = rev, w_time = 1700\<rparr>"

section \<open>What launching does to the child\<close>

definition runner_pids :: "RunnerEntry list \<Rightarrow> int list" where
  "runner_pids es = filter (\<lambda>p. 0 < p) (map (\<lambda>e. runner_pid (re_runner e)) es)"

lemma terms_destroy_all:
  "os_terms (fold (\<lambda>e. Runner_destroy (re_runner e)) es s) = os_terms s @ runner_pids es"
  by (induction es arbitrary: s) (simp_all add: terms_destroy runner_pids_def)

lemma destroy_keeps [simp]:
  "os_prompt (Runner_destroy r s) = os_prompt s"
  "os_images (Runner_destroy r s) = os_images s"
  "os_forks (Runner_destroy r s) = os_forks s"
  by (simp_all add: Runner_destroy_def Runner_Stop_def sys_kill_def sys_waitpid_def child_exits_def Let_def split_beta
      split: option.splits child_state.splits)

lemma destroy_prompt_dead:
  assumes "os_prompt s p" and "0 < p" and "runner_pid r = p"
  shows "\<not> child_alive (Runner_destroy r s) p"
  using assms by (auto simp: Runner_destroy_def Runner_Stop_def sys_kill_def sys_waitpid_def child_exits_def
      child_alive_def Let_def update_conv' delete_conv' split: option.splits child_state.splits)

lemma destroy_all_keeps [simp]:
  "os_prompt (fold (\<lambda>e. Runner_destroy (re_runner e)) es s) = os_prompt s"
  "os_images (fold (\<lambda>e. Runner_destroy (re_runner e)) es s) = os_images s"
  "os_forks (fold (\<lambda>e. Runner_destroy (re_runner e)) es s) = os_forks s"
  by (induction es arbitrary: s) simp_all

text \<open>The signals of a launch: the tools moved by a reallocation, then the new tool, twice.\<close>

lemma launch_tool_started:
  assumes "os_forks (w_os w) = n # ns" and "0 < n" and "launch_tool bin args ev d w = (d', w')"
  shows "os_terms (w_os w') = os_terms (w_os w) @
      (if length (bd_runners d) < bd_capacity d then [] else runner_pids (bd_runners d)) @ [int n, int n]"
    and "bd_runners d' = bd_runners d @ [\<lparr>re_runner = \<lparr>runner_pid = int n, runner_output = ev_file_path ev\<rparr>, re_pending = ev\<rparr>]"
    and "os_prompt (w_os w) (int n) \<longrightarrow> \<not> child_alive (w_os w') (int n)"
    and "os_images (w_os w') = os_images (w_os w) @
      [\<lparr>img_pid = int n, img_bin = bin, img_argv = bin # args, img_output = ev_file_path ev, img_pdeathsig = True\<rparr>]"
    and "os_forks (w_os w') = ns"
proof -
  let ?r = "\<lparr>runner_pid = int n, runner_output = ev_file_path ev\<rparr>"
  let ?s = "(w_os w)\<lparr>os_forks := ns, os_children := AList.update (int n) Running (os_children (w_os w)),
      os_images := os_images (w_os w) @ [\<lparr>img_pid = int n, img_bin = bin, img_argv = bin # args,
        img_output = ev_file_path ev, img_pdeathsig = True\<rparr>]\<rparr>"
  let ?p = "push_runner \<lparr>re_runner = ?r, re_pending = ev\<rparr> d ?s"
  have "Runner_Start bin args (ev_file_path ev) CmdRunner_new (w_os w) = (True, ?r, ?s)"
    using assms(1,2) by (simp add: Runner_Start_def sys_fork_def CmdRunner_new_def Let_def)
  then have eq: "d' = fst ?p" "w' = w\<lparr>w_os := Runner_destroy ?r (Runner_destroy ?r (snd ?p))\<rparr>"
    using assms(3) by (auto simp: launch_tool_def Let_def split_beta)
  show "os_terms (w_os w') = os_terms (w_os w) @
      (if length (bd_runners d) < bd_capacity d then [] else runner_pids (bd_runners d)) @ [int n, int n]"
    using assms(2) by (simp add: eq push_runner_def terms_destroy terms_destroy_all)
  show "bd_runners d' = bd_runners d @ [\<lparr>re_runner = ?r, re_pending = ev\<rparr>]"
    by (simp add: eq push_runner_def)
  show "os_prompt (w_os w) (int n) \<longrightarrow> \<not> child_alive (w_os w') (int n)"
  proof
    assume "os_prompt (w_os w) (int n)"
    then have "os_prompt (Runner_destroy ?r (snd ?p)) (int n)" by (simp add: push_runner_def)
    then show "\<not> child_alive (w_os w') (int n)"
      using destroy_prompt_dead [of "Runner_destroy ?r (snd ?p)" "int n" ?r] assms(2) by (simp add: eq)
  qed
  show "os_images (w_os w') = os_images (w_os w) @
      [\<lparr>img_pid = int n, img_bin = bin, img_argv = bin # args, img_output = ev_file_path ev, img_pdeathsig = True\<rparr>]"
    by (simp add: eq push_runner_def)
  show "os_forks (w_os w') = ns" by (simp add: eq push_runner_def)
qed

text \<open>
  C32: A tool that \<open>launch_offcpu\<close> has just started is sent SIGTERM twice before the function
  returns, because the local runner and the local entry are copied, not moved, into the vector and
  their destructors stop the child; a child that reacts at once is dead when the function returns.
\<close>

theorem launched_tool_is_signalled:
  assumes "os_forks (w_os w) = n # ns" and "0 < n" and "launch_offcpu cfg d w = (d', w')"
  shows "\<exists>pre. os_terms (w_os w') = pre @ [int n, int n] \<and>
    map (\<lambda>e. runner_pid (re_runner e)) (bd_runners d') = map (\<lambda>e. runner_pid (re_runner e)) (bd_runners d) @ [int n] \<and>
    (os_prompt (w_os w) (int n) \<longrightarrow> \<not> child_alive (w_os w') (int n))"
proof -
  from assms(3) obtain bin args ev where "launch_tool bin args ev d w = (d', w')"
    by (auto simp: launch_offcpu_def)
  from launch_tool_started [OF assms(1,2) this] show ?thesis by (auto intro!: exI)
qed

definition demo_offcpu :: OffcpuConfig where
  "demo_offcpu = \<lparr>oc_process = ''nginx'', oc_thread = '''', oc_min_block_us = 1000, oc_max_block_us = 5000, oc_interval_s = 30\<rparr>"

theorem launched_tool_is_signalled_witness:
  "\<exists>pre. os_terms (w_os (snd (launch_offcpu demo_offcpu BpfDiagnoser_new (demo_world [77])))) = pre @ [77, 77] \<and>
    \<not> child_alive (w_os (snd (launch_offcpu demo_offcpu BpfDiagnoser_new (demo_world [77])))) 77"
  using launched_tool_is_signalled [of "demo_world [77]" 77 "[]" demo_offcpu BpfDiagnoser_new
      "fst (launch_offcpu demo_offcpu BpfDiagnoser_new (demo_world [77]))"
      "snd (launch_offcpu demo_offcpu BpfDiagnoser_new (demo_world [77]))"]
  by (auto simp: demo_world_def)

section \<open>What Collect does with finished tools\<close>

text \<open>
  The reaping loop keeps a subsequence of the runners, and the events it adds are a subsequence
  of the pending events: no event is emitted twice or out of order. It changes nothing else of
  the diagnoser.
\<close>

lemma isrunning_kept: "Runner_IsRunning r s = (True, r', s') \<Longrightarrow> r' = r \<and> s' = s"
  by (rule runner.running_same)

lemma emit_finished_events:
  obtains add where "fst (emit_finished ev d w) = d\<lparr>bd_events := bd_events d @ add\<rparr>" "add = [] \<or> add = [ev]"
proof (cases "\<exists>mt z. sys_stat (ev_file_path ev) (w_fs w) = Some (mt, z) \<and> 0 < z")
  case True
  then show thesis by (intro that [of "[ev]"]) (auto simp: emit_finished_def)
next
  case False
  then show thesis by (intro that [of "[]"]) (auto simp: emit_finished_def split: option.splits)
qed

lemma reap_loop_shape:
  "\<exists>evs left. reap_loop kept es d w = (d\<lparr>bd_events := bd_events d @ evs, bd_runners := kept @ left\<rparr>, snd (reap_loop kept es d w)) \<and>
     subseq evs (map re_pending es) \<and> subseq left es"
proof (induction es arbitrary: kept d w)
  case Nil
  show ?case by (rule exI [of _ "[]"], rule exI [of _ "[]"]) simp
next
  case (Cons e es)
  obtain running r s where run: "Runner_IsRunning (re_runner e) (w_os w) = (running, r, s)" by (cases "Runner_IsRunning (re_runner e) (w_os w)") auto
  show ?case
  proof (cases running)
    case True
    with isrunning_kept run have same: "e\<lparr>re_runner := r\<rparr> = e" by (metis RunnerEntry.surjective RunnerEntry.update_convs(1) old.unit.exhaust RunnerEntry.select_convs(1))
    from Cons.IH [of "kept @ [e]" d "w\<lparr>w_os := s\<rparr>"] obtain evs left where
      "reap_loop (kept @ [e]) es d (w\<lparr>w_os := s\<rparr>) = (d\<lparr>bd_events := bd_events d @ evs, bd_runners := (kept @ [e]) @ left\<rparr>,
         snd (reap_loop (kept @ [e]) es d (w\<lparr>w_os := s\<rparr>)))" "subseq evs (map re_pending es)" "subseq left es" by blast
    with True run same show ?thesis
      by (intro exI [of _ evs] exI [of _ "e # left"]) (auto simp: Let_def)
  next
    case False
    obtain add where add: "fst (emit_finished (re_pending e) d (w\<lparr>w_os := s\<rparr>)) = d\<lparr>bd_events := bd_events d @ add\<rparr>"
      "add = [] \<or> add = [re_pending e]" by (rule emit_finished_events)
    with False run obtain w' where w': "reap_loop kept (e # es) d w = reap_loop kept es (d\<lparr>bd_events := bd_events d @ add\<rparr>) w'"
      by (auto simp: Let_def split_beta)
    from Cons.IH [of kept "d\<lparr>bd_events := bd_events d @ add\<rparr>" w'] obtain evs left where
      "reap_loop kept es (d\<lparr>bd_events := bd_events d @ add\<rparr>) w' =
        (d\<lparr>bd_events := bd_events d @ add @ evs, bd_runners := kept @ left\<rparr>, snd (reap_loop kept es (d\<lparr>bd_events := bd_events d @ add\<rparr>) w'))"
      "subseq evs (map re_pending es)" "subseq left es" by auto
    moreover have "subseq (add @ evs) (map re_pending (e # es))"
      using \<open>subseq evs (map re_pending es)\<close> add(2) by auto
    ultimately show ?thesis unfolding w' by (intro exI [of _ "add @ evs"] exI [of _ left]) auto
  qed
qed

lemma reap_loop_config:
  obtains evs left where "fst (reap_loop kept es d w) = d\<lparr>bd_events := bd_events d @ evs, bd_runners := kept @ left\<rparr>"
    "subseq evs (map re_pending es)" "subseq left es"
  using reap_loop_shape [of kept es d w] by (metis fst_conv)

text \<open>Nothing the loop does brings a child to life, and it starts no process.\<close>

lemma not_alive_waitpid: "\<not> child_alive s p \<Longrightarrow> \<not> child_alive (snd (sys_waitpid q s)) p"
  by (auto simp: child_alive_def sys_waitpid_def delete_conv' split: option.splits child_state.splits)

lemma not_alive_kill: "\<not> child_alive s p \<Longrightarrow> \<not> child_alive (sys_kill q s) p"
  by (auto simp: child_alive_def sys_kill_def child_exits_def Let_def update_conv' split: option.splits child_state.splits)

lemma not_alive_destroy: "\<not> child_alive s p \<Longrightarrow> \<not> child_alive (Runner_destroy r s) p"
  by (simp add: Runner_destroy_def Runner_Stop_def Let_def split_beta not_alive_kill not_alive_waitpid)

lemma isrunning_os:
  "\<not> child_alive s p \<Longrightarrow> \<not> child_alive (snd (snd (Runner_IsRunning r s))) p"
  "os_images (snd (snd (Runner_IsRunning r s))) = os_images s"
  "os_forks (snd (snd (Runner_IsRunning r s))) = os_forks s"
proof -
  have "snd (snd (Runner_IsRunning r s)) = (if runner_pid r \<le> 0 then s else snd (sys_waitpid (runner_pid r) s))"
    by (simp add: Runner_IsRunning_def Let_def split_beta)
  moreover have "os_images (snd (sys_waitpid q s)) = os_images s" "os_forks (snd (sys_waitpid q s)) = os_forks s" for q
    by (simp_all add: sys_waitpid_def split: option.splits child_state.splits)
  ultimately show "\<not> child_alive s p \<Longrightarrow> \<not> child_alive (snd (snd (Runner_IsRunning r s))) p"
    "os_images (snd (snd (Runner_IsRunning r s))) = os_images s"
    "os_forks (snd (snd (Runner_IsRunning r s))) = os_forks s"
    by (simp_all add: not_alive_waitpid)
qed

lemma alive_destroyD: "child_alive (Runner_destroy r s) p \<Longrightarrow> child_alive s p"
  using not_alive_destroy by blast

lemma alive_isrunningD: "child_alive (snd (snd (Runner_IsRunning r s))) p \<Longrightarrow> child_alive s p"
  using isrunning_os(1) by blast

lemma isrunning_dead: "\<not> child_alive s (runner_pid r) \<Longrightarrow> \<not> fst (Runner_IsRunning r s)"
  by (auto simp: Runner_IsRunning_def sys_waitpid_def child_alive_def Let_def split: option.splits child_state.splits)

definition same_inputs :: "world \<Rightarrow> world \<Rightarrow> bool" where
  "same_inputs w w' \<longleftrightarrow> w_ls w' = w_ls w \<and> w_proc w' = w_proc w \<and> w_time w' = w_time w"

lemma emit_finished_world:
  "w_os (snd (emit_finished ev d w)) = w_os w" "same_inputs w (snd (emit_finished ev d w))"
  by (auto simp: emit_finished_def same_inputs_def split: option.splits)

lemma reap_loop_world:
  "os_images (w_os (snd (reap_loop kept es d w))) = os_images (w_os w) \<and>
   os_forks (w_os (snd (reap_loop kept es d w))) = os_forks (w_os w) \<and>
   same_inputs w (snd (reap_loop kept es d w))"
proof (induction es arbitrary: kept d w)
  case (Cons e es)
  let ?w = "w\<lparr>w_os := snd (snd (Runner_IsRunning (re_runner e) (w_os w)))\<rparr>"
  let ?e = "emit_finished (re_pending e) d ?w"
  show ?case
    using Cons.IH emit_finished_world [where ev = "re_pending e" and d = d and w = ?w]
    by (simp add: Let_def split_beta isrunning_os same_inputs_def)
qed (simp add: same_inputs_def)

lemma reap_loop_all_dead:
  assumes "\<forall>e \<in> set es. \<not> child_alive (w_os w) (runner_pid (re_runner e))"
  shows "bd_runners (fst (reap_loop kept es d w)) = kept"
  using assms
proof (induction es arbitrary: kept d w)
  case (Cons e es)
  let ?w = "w\<lparr>w_os := snd (snd (Runner_IsRunning (re_runner e) (w_os w)))\<rparr>"
  from Cons.prems have "\<not> fst (Runner_IsRunning (re_runner e) (w_os w))" by (simp add: isrunning_dead)
  then show ?case
    using Cons.prems by (auto simp: Let_def split_beta emit_finished_world
        intro!: Cons.IH dest!: alive_destroyD alive_isrunningD)
qed simp

section \<open>Restarting the tools\<close>

definition tool_image :: "string \<Rightarrow> string list \<Rightarrow> CppDiagnoseEvent \<Rightarrow> nat \<Rightarrow> image" where
  "tool_image bin args ev n = \<lparr>img_pid = int n, img_bin = bin, img_argv = bin # args,
     img_output = ev_file_path ev, img_pdeathsig = True\<rparr>"

definition same_setup :: "BpfDiagnoser \<Rightarrow> BpfDiagnoser \<Rightarrow> bool" where
  "same_setup d d' \<longleftrightarrow> bd_output_dir d' = bd_output_dir d \<and> bd_offcpu_bin d' = bd_offcpu_bin d \<and>
     bd_profile_bin d' = bd_profile_bin d \<and> bd_limit_file_size_mb d' = bd_limit_file_size_mb d \<and>
     bd_offcpu_configs d' = bd_offcpu_configs d \<and> bd_profile_configs d' = bd_profile_configs d"

lemma launch_tool_setup: "launch_tool bin args ev d w = (d', w') \<Longrightarrow> same_setup d d' \<and> same_inputs w w'"
  by (auto simp: launch_tool_def Let_def split_beta push_runner_def same_setup_def same_inputs_def split: if_splits)

lemma offcpu_depends:
  assumes "same_setup d d'" and "same_inputs w w'"
  shows "offcpu_args cfg d' w' = offcpu_args cfg d w" "offcpu_event cfg d' w' = offcpu_event cfg d w"
    "profile_args pcfg d' w' = profile_args pcfg d w" "profile_event pcfg d' w' = profile_event pcfg d w"
    "bd_offcpu_bin d' = bd_offcpu_bin d" "bd_profile_bin d' = bd_profile_bin d"
  using assms by (simp_all add: offcpu_args_def offcpu_event_def profile_args_def profile_event_def pid_args_def
      tid_args_def same_setup_def same_inputs_def)

lemma fold_launch_images:
  assumes f: "\<And>cfg d w. f cfg d w = launch_tool (bin d) (args cfg d w) (ev cfg d w) d w"
    and dep: "\<And>cfg d' w'. same_setup d d' \<Longrightarrow> same_inputs w w' \<Longrightarrow>
      bin d' = bin d \<and> args cfg d' w' = args cfg d w \<and> ev cfg d' w' = ev cfg d w"
    and "os_forks (w_os w) = ns @ rest" and "length ns = length cfgs" and "list_all (\<lambda>n. 0 < n) ns"
  shows "os_images (w_os (snd (fold_launch f cfgs (d, w)))) =
      os_images (w_os w) @ map2 (\<lambda>cfg n. tool_image (bin d) (args cfg d w) (ev cfg d w) n) cfgs ns \<and>
    os_forks (w_os (snd (fold_launch f cfgs (d, w)))) = rest \<and>
    same_setup d (fst (fold_launch f cfgs (d, w))) \<and> same_inputs w (snd (fold_launch f cfgs (d, w)))"
  using assms(2-5)
proof (induction cfgs arbitrary: d w ns)
  case Nil
  from Nil(2,3) show ?case by (simp add: fold_launch_def same_setup_def same_inputs_def)
next
  case (Cons cfg cfgs)
  obtain n ns' where ns: "ns = n # ns'" "0 < n" using Cons.prems(3,4) by (cases ns) auto
  obtain d' w' where l: "f cfg d w = (d', w')" by (cases "f cfg d w")
  then have lt: "launch_tool (bin d) (args cfg d w) (ev cfg d w) d w = (d', w')" by (simp add: f)
  have su: "same_setup d d'" "same_inputs w w'" using launch_tool_setup [OF lt] by simp_all
  note st = launch_tool_started [OF _ ns(2) lt, of "ns' @ rest"]
  have dep': "bin d'' = bin d' \<and> args c d'' w'' = args c d' w' \<and> ev c d'' w'' = ev c d' w'"
    if "same_setup d' d''" "same_inputs w' w''" for c d'' w''
  proof -
    have "same_setup d d''" "same_inputs w w''" using su that by (simp_all add: same_setup_def same_inputs_def)
    from Cons.prems(1) [OF this] Cons.prems(1) [OF su] show ?thesis by metis
  qed
  have IH: "os_images (w_os (snd (fold_launch f cfgs (d', w')))) =
      os_images (w_os w') @ map2 (\<lambda>cfg n. tool_image (bin d') (args cfg d' w') (ev cfg d' w') n) cfgs ns' \<and>
    os_forks (w_os (snd (fold_launch f cfgs (d', w')))) = rest \<and>
    same_setup d' (fst (fold_launch f cfgs (d', w'))) \<and> same_inputs w' (snd (fold_launch f cfgs (d', w')))"
    by (rule Cons.IH) (use dep' st(5) Cons.prems(2-4) ns in simp_all)
  have "map2 (\<lambda>cfg n. tool_image (bin d') (args cfg d' w') (ev cfg d' w') n) cfgs ns' =
      map2 (\<lambda>cfg n. tool_image (bin d) (args cfg d w) (ev cfg d w) n) cfgs ns'"
    by (simp only: Cons.prems(1) [OF su])
  with IH st(4) Cons.prems(2) ns have "os_images (w_os (snd (fold_launch f cfgs (d', w')))) =
      os_images (w_os w) @ map2 (\<lambda>cfg n. tool_image (bin d) (args cfg d w) (ev cfg d w) n) (cfg # cfgs) ns"
    by (simp add: tool_image_def)
  moreover have "fold_launch f (cfg # cfgs) (d, w) = fold_launch f cfgs (d', w')"
    using l by (simp add: fold_launch_def)
  moreover have "same_setup d (fst (fold_launch f cfgs (d', w')))" "same_inputs w (snd (fold_launch f cfgs (d', w')))"
    using IH su by (simp_all add: same_setup_def same_inputs_def)
  ultimately show ?case using IH by simp
qed

text \<open>
  C31: Once no started tool is alive any more, \<open>Collect\<close> reaps them all and starts every configured
  tool again, each with exactly its command line (limits, output file, process and thread filter),
  off-CPU tools first, in the order they were configured.
\<close>

theorem bpf_collect_restarts_all:
  assumes "\<forall>e \<in> set (bd_runners d). \<not> child_alive (w_os w) (runner_pid (re_runner e))"
    and "os_forks (w_os w) = ns @ ms @ rest" and "list_all (\<lambda>n. 0 < n) (ns @ ms)"
    and "length ns = length (bd_offcpu_configs d)" and "length ms = length (bd_profile_configs d)"
  shows "os_images (w_os (snd (Bpf_Collect d w))) = os_images (w_os w) @
      map2 (\<lambda>cfg. tool_image (bd_offcpu_bin d) (offcpu_args cfg d w) (offcpu_event cfg d w)) (bd_offcpu_configs d) ns @
      map2 (\<lambda>cfg. tool_image (bd_profile_bin d) (profile_args cfg d w) (profile_event cfg d w)) (bd_profile_configs d) ms"
proof -
  obtain d1 w1 where r: "reap_loop [] (bd_runners d) d w = (d1, w1)" by (cases "reap_loop [] (bd_runners d) d w")
  have w1: "os_images (w_os w1) = os_images (w_os w)" "os_forks (w_os w1) = os_forks (w_os w)" "same_inputs w w1"
    using reap_loop_world [of "[]" "bd_runners d" d w] r by simp_all
  have d1: "same_setup d d1" by (rule reap_loop_config [of "[]" "bd_runners d" d w]) (use r in \<open>simp add: same_setup_def\<close>)
  have empty: "bd_runners d1 = []" using reap_loop_all_dead [OF assms(1), of "[]" d] r by simp
  have cfgs: "bd_offcpu_configs d1 = bd_offcpu_configs d" "bd_profile_configs d1 = bd_profile_configs d"
    using d1 by (simp_all add: same_setup_def)
  obtain d2 w2 where l: "fold_launch launch_offcpu (bd_offcpu_configs d) (d1, w1) = (d2, w2)"
    by (cases "fold_launch launch_offcpu (bd_offcpu_configs d) (d1, w1)")
  have o: "os_images (w_os w2) = os_images (w_os w1) @ map2 (\<lambda>cfg n. tool_image (bd_offcpu_bin d1)
      (offcpu_args cfg d1 w1) (offcpu_event cfg d1 w1) n) (bd_offcpu_configs d) ns \<and> os_forks (w_os w2) = ms @ rest \<and>
      same_setup d1 d2 \<and> same_inputs w1 w2"
    using fold_launch_images [of launch_offcpu bd_offcpu_bin offcpu_args offcpu_event d1 w1 ns "ms @ rest" "bd_offcpu_configs d"]
      assms(2-5) w1 l by (simp add: launch_offcpu_def offcpu_depends)
  have p: "os_images (w_os (snd (fold_launch launch_profile (bd_profile_configs d) (d2, w2)))) = os_images (w_os w2) @
      map2 (\<lambda>cfg n. tool_image (bd_profile_bin d2) (profile_args cfg d2 w2) (profile_event cfg d2 w2) n) (bd_profile_configs d) ms"
    using fold_launch_images [of launch_profile bd_profile_bin profile_args profile_event d2 w2 ms rest "bd_profile_configs d"]
      assms(2-5) o by (simp add: launch_profile_def offcpu_depends)
  have dep: "same_setup d d2" "same_inputs w w2" using d1 w1 o by (simp_all add: same_setup_def same_inputs_def)
  show ?thesis
  proof (cases "bd_offcpu_configs d = [] \<and> bd_profile_configs d = []")
    case True
    then show ?thesis using r w1 cfgs by (simp add: Bpf_Collect_def)
  next
    case False
    then have "Bpf_Collect d w = fold_launch launch_profile (bd_profile_configs d) (d2, w2)"
      using r empty cfgs l by (simp add: Bpf_Collect_def)
    then show ?thesis using o p w1 offcpu_depends [OF d1 w1(3)] offcpu_depends [OF dep] by simp
  qed
qed

definition demo_bpf :: BpfDiagnoser where
  "demo_bpf = BpfDiagnoser_new\<lparr>bd_output_dir := ''/d'', bd_offcpu_bin := ''/bin/offcpu'', bd_offcpu_configs := [demo_offcpu]\<rparr>"

theorem bpf_collect_restarts_all_witness:
  "os_images (w_os (snd (Bpf_Collect demo_bpf (demo_world [77])))) =
    [tool_image ''/bin/offcpu'' (offcpu_args demo_offcpu demo_bpf (demo_world [77])) (offcpu_event demo_offcpu demo_bpf (demo_world [77])) 77]"
  using bpf_collect_restarts_all [of demo_bpf "demo_world [77]" "[77]" "[]" "[]"]
  by (simp add: demo_bpf_def BpfDiagnoser_new_def demo_world_def)

text \<open>An event whose file has data.\<close>

definition with_data :: "fstate \<Rightarrow> CppDiagnoseEvent \<Rightarrow> bool" where
  "with_data s ev \<longleftrightarrow> (\<exists>mtime sz. sys_stat (ev_file_path ev) s = Some (mtime, sz) \<and> 0 < sz)"

lemma emit_finished_data:
  obtains add where "bd_events (fst (emit_finished ev d w)) = bd_events d @ add" and "list_all (with_data (w_fs w)) add"
    and "\<And>ev'. with_data (w_fs (snd (emit_finished ev d w))) ev' \<Longrightarrow> with_data (w_fs w) ev'"
proof (cases "with_data (w_fs w) ev")
  case True
  then show thesis
    by (intro that [of "[ev]"]) (auto simp: emit_finished_def with_data_def dest!: bpf_cleanup_only_removes)
next
  case False
  then have "emit_finished ev d w = (d, w)" by (auto simp: emit_finished_def with_data_def split: option.splits)
  then show thesis by (intro that [of "[]"]) simp_all
qed

lemma reap_loop_data:
  "\<exists>new. bd_events (fst (reap_loop kept es d w)) = bd_events d @ new \<and> list_all (with_data (w_fs w)) new"
proof (induction es arbitrary: kept d w)
  case (Cons e es)
  obtain running r s where run: "Runner_IsRunning (re_runner e) (w_os w) = (running, r, s)"
    by (cases "Runner_IsRunning (re_runner e) (w_os w)") auto
  show ?case
  proof (cases running)
    case True
    with run Cons.IH [of "kept @ [e\<lparr>re_runner := r\<rparr>]" d "w\<lparr>w_os := s\<rparr>"] show ?thesis by simp
  next
    case False
    let ?w = "w\<lparr>w_os := s\<rparr>"
    obtain d1 w1 where em: "emit_finished (re_pending e) d ?w = (d1, w1)" by fastforce
    obtain add where add: "bd_events d1 = bd_events d @ add" "list_all (with_data (w_fs w)) add"
      and mono: "\<And>ev. with_data (w_fs w1) ev \<Longrightarrow> with_data (w_fs w) ev"
      using emit_finished_data [of "re_pending e" d ?w] em by auto
    let ?v = "w1\<lparr>w_os := Runner_destroy (if es = [] then r else re_runner (last es)) (w_os w1)\<rparr>"
    from Cons.IH [of kept d1 ?v] obtain new where
      new: "bd_events (fst (reap_loop kept es d1 ?v)) = bd_events d1 @ new" "list_all (with_data (w_fs w1)) new" by auto
    have "bd_events (fst (reap_loop kept (e # es) d w)) = bd_events d @ add @ new"
      using False run em new(1) add(1) by simp
    moreover have "list_all (with_data (w_fs w)) (add @ new)" using add(2) new(2) mono by (auto simp: list_all_iff)
    ultimately show ?thesis by blast
  qed
qed simp

lemma bpf_collect_keeps_events: "bd_events (fst (Bpf_Collect d w)) = bd_events (fst (reap_loop [] (bd_runners d) d w))"
proof -
  have l: "bd_events (fst (launch_tool b a e d w)) = bd_events d" for b a e d w
    by (simp add: launch_tool_def Let_def split_beta push_runner_def)
  have o: "bd_events (fst (fold_launch launch_offcpu cs dw)) = bd_events (fst dw)" for cs dw
    by (induction cs arbitrary: dw) (simp_all add: fold_launch_def launch_offcpu_def split_beta l)
  have "bd_events (fst (fold_launch launch_profile cs dw)) = bd_events (fst dw)" for cs dw
    by (induction cs arbitrary: dw) (simp_all add: fold_launch_def launch_profile_def split_beta l)
  with o show ?thesis by (simp add: Bpf_Collect_def Let_def split_beta)
qed

text \<open>
  The events \<open>Collect\<close> adds are a subsequence of the pending events of the tools that were
  running when it was called, each with data in its file: a launch is reported at most once, in
  launch order, and nothing that was already there is lost or changed.
\<close>

lemma bpf_collect_events:
  "\<exists>new. bd_events (fst (Bpf_Collect d w)) = bd_events d @ new \<and> subseq new (map re_pending (bd_runners d)) \<and>
     list_all (with_data (w_fs w)) new"
proof -
  obtain new left where r: "fst (reap_loop [] (bd_runners d) d w) = d\<lparr>bd_events := bd_events d @ new, bd_runners := [] @ left\<rparr>"
    "subseq new (map re_pending (bd_runners d))" by (rule reap_loop_config)
  with reap_loop_data [of "[]" "bd_runners d" d w] show ?thesis by (auto simp: bpf_collect_keeps_events)
qed

section \<open>What the events say\<close>

text \<open>
  Every event, reported or pending, was made by a launch: it names a configured process and the
  file in the output directory that the launch derived from the configuration and the time.
\<close>

definition bpf_event_ok :: "BpfDiagnoser \<Rightarrow> CppDiagnoseEvent \<Rightarrow> bool" where
  "bpf_event_ok d ev \<longleftrightarrow>
     (ev_type ev = ''offcpu'' \<and> (\<exists>cfg now. cfg \<in> set (bd_offcpu_configs d) \<and> ev_process_name ev = oc_process cfg \<and>
        ev_file_path ev = offcpu_file (bd_output_dir d) cfg now)) \<or>
     (ev_type ev = ''profile'' \<and> (\<exists>cfg now. cfg \<in> set (bd_profile_configs d) \<and> ev_process_name ev = pc_process cfg \<and>
        ev_file_path ev = profile_file (bd_output_dir d) cfg now))"

definition bpf_inv :: "BpfDiagnoser \<Rightarrow> bool" where
  "bpf_inv d \<longleftrightarrow> list_all (bpf_event_ok d) (bd_events d) \<and> list_all (\<lambda>e. bpf_event_ok d (re_pending e)) (bd_runners d)"

lemma subseq_set_subset: "subseq xs ys \<Longrightarrow> set xs \<subseteq> set ys"
  by (metis set_nths_subset subseq_conv_nths)

lemma bpf_event_ok_mono:
  assumes "bpf_event_ok d ev" and "bd_output_dir d' = bd_output_dir d"
    and "set (bd_offcpu_configs d) \<subseteq> set (bd_offcpu_configs d')" and "set (bd_profile_configs d) \<subseteq> set (bd_profile_configs d')"
  shows "bpf_event_ok d' ev"
  using assms unfolding bpf_event_ok_def by (auto 4 4)

lemma bpf_inv_grow:
  assumes "bpf_inv d" and "bd_output_dir d' = bd_output_dir d"
    and "set (bd_offcpu_configs d) \<subseteq> set (bd_offcpu_configs d')" and "set (bd_profile_configs d) \<subseteq> set (bd_profile_configs d')"
    and "set (bd_events d') \<subseteq> set (bd_events d) \<union> re_pending ` set (bd_runners d)"
    and "re_pending ` set (bd_runners d') \<subseteq> re_pending ` set (bd_runners d) \<union> {ev. bpf_event_ok d' ev}"
  shows "bpf_inv d'"
proof -
  have "bpf_event_ok d' ev" if "ev \<in> set (bd_events d) \<union> re_pending ` set (bd_runners d)" for ev
    using that assms(1) bpf_event_ok_mono [OF _ assms(2-4)] by (auto simp: bpf_inv_def list_all_iff)
  with assms(5,6) show ?thesis by (fastforce simp: bpf_inv_def list_all_iff)
qed

lemma launch_tool_inv:
  assumes "bpf_inv d" and "bpf_event_ok d ev"
  shows "bpf_inv (fst (launch_tool bin args ev d w)) \<and> same_setup d (fst (launch_tool bin args ev d w))"
proof -
  obtain d' w' where l: "launch_tool bin args ev d w = (d', w')" by (cases "launch_tool bin args ev d w")
  have su: "same_setup d d'" using launch_tool_setup [OF l] by simp
  have "bpf_event_ok d' ev" using assms(2) su by (intro bpf_event_ok_mono [OF assms(2)]) (simp_all add: same_setup_def)
  moreover have "bd_events d' = bd_events d \<and> re_pending ` set (bd_runners d') \<subseteq> re_pending ` set (bd_runners d) \<union> {ev}"
    using l by (auto simp: launch_tool_def Let_def split_beta push_runner_def split: if_splits)
  ultimately have "bpf_inv d'" using su by (intro bpf_inv_grow [OF assms(1)]) (auto simp: same_setup_def)
  with su l show ?thesis by simp
qed

lemma launch_offcpu_inv:
  assumes "bpf_inv d" and "cfg \<in> set (bd_offcpu_configs d)"
  shows "bpf_inv (fst (launch_offcpu cfg d w)) \<and> same_setup d (fst (launch_offcpu cfg d w))"
  unfolding launch_offcpu_def using assms
  by (intro launch_tool_inv) (auto simp: bpf_event_ok_def offcpu_event_def)

lemma launch_profile_inv:
  assumes "bpf_inv d" and "cfg \<in> set (bd_profile_configs d)"
  shows "bpf_inv (fst (launch_profile cfg d w)) \<and> same_setup d (fst (launch_profile cfg d w))"
  unfolding launch_profile_def using assms
  by (intro launch_tool_inv) (auto simp: bpf_event_ok_def profile_event_def)

lemma fold_launch_inv:
  assumes "\<And>cfg d w. bpf_inv d \<Longrightarrow> cfg \<in> set (cs d) \<Longrightarrow> bpf_inv (fst (f cfg d w)) \<and> same_setup d (fst (f cfg d w))"
    and "\<And>d d'. same_setup d d' \<Longrightarrow> cs d' = cs d" and "bpf_inv (fst dw)" and "set cfgs \<subseteq> set (cs (fst dw))"
  shows "bpf_inv (fst (fold_launch f cfgs dw)) \<and> same_setup (fst dw) (fst (fold_launch f cfgs dw))"
  using assms(3,4)
proof (induction cfgs arbitrary: dw)
  case Nil
  then show ?case by (simp add: fold_launch_def same_setup_def)
next
  case (Cons cfg cfgs)
  obtain d w where dw: "dw = (d, w)" by (cases dw)
  with Cons.prems have st: "bpf_inv (fst (f cfg d w))" "same_setup d (fst (f cfg d w))" using assms(1) by simp_all
  have "cs (fst (f cfg d w)) = cs d" by (rule assms(2) [OF st(2)])
  with st Cons.IH [of "f cfg d w"] Cons.prems show ?case
    by (simp add: fold_launch_def dw) (simp add: same_setup_def)
qed

lemma offcpus_inv:
  assumes "bpf_inv (fst dw)" and "cfgs = bd_offcpu_configs (fst dw)"
  shows "bpf_inv (fst (fold_launch launch_offcpu cfgs dw)) \<and> same_setup (fst dw) (fst (fold_launch launch_offcpu cfgs dw))"
proof (rule fold_launch_inv [where cs = bd_offcpu_configs])
  show "bpf_inv (fst (launch_offcpu cfg d w)) \<and> same_setup d (fst (launch_offcpu cfg d w))"
    if "bpf_inv d" "cfg \<in> set (bd_offcpu_configs d)" for cfg d w
    using that by (rule launch_offcpu_inv)
  show "bd_offcpu_configs d' = bd_offcpu_configs d" if "same_setup d d'" for d d' using that by (simp add: same_setup_def)
qed (use assms in simp_all)

lemma profiles_inv:
  assumes "bpf_inv (fst dw)" and "cfgs = bd_profile_configs (fst dw)"
  shows "bpf_inv (fst (fold_launch launch_profile cfgs dw)) \<and> same_setup (fst dw) (fst (fold_launch launch_profile cfgs dw))"
proof (rule fold_launch_inv [where cs = bd_profile_configs])
  show "bpf_inv (fst (launch_profile cfg d w)) \<and> same_setup d (fst (launch_profile cfg d w))"
    if "bpf_inv d" "cfg \<in> set (bd_profile_configs d)" for cfg d w
    using that by (rule launch_profile_inv)
  show "bd_profile_configs d' = bd_profile_configs d" if "same_setup d d'" for d d' using that by (simp add: same_setup_def)
qed (use assms in simp_all)

lemma same_setup_trans: "same_setup d e \<Longrightarrow> same_setup e f \<Longrightarrow> same_setup d f"
  by (simp add: same_setup_def)

lemma bpf_collect_inv:
  assumes "bpf_inv d"
  shows "bpf_inv (fst (Bpf_Collect d w)) \<and> same_setup d (fst (Bpf_Collect d w))"
proof -
  obtain evs left where r: "fst (reap_loop [] (bd_runners d) d w) = d\<lparr>bd_events := bd_events d @ evs, bd_runners := [] @ left\<rparr>"
    "subseq evs (map re_pending (bd_runners d))" "subseq left (bd_runners d)" by (rule reap_loop_config)
  obtain d1 w1 where d1: "reap_loop [] (bd_runners d) d w = (d1, w1)" by (cases "reap_loop [] (bd_runners d) d w")
  have su: "same_setup d d1" using r(1) by (simp add: d1 same_setup_def)
  have "set evs \<subseteq> re_pending ` set (bd_runners d)" "set left \<subseteq> set (bd_runners d)"
    using r(2,3) [THEN subseq_set_subset] by simp_all
  then have inv: "bpf_inv d1" using r(1) unfolding d1 by (intro bpf_inv_grow [OF assms]) auto
  obtain d2 w2 where d2: "fold_launch launch_offcpu (bd_offcpu_configs d1) (d1, w1) = (d2, w2)"
    by (cases "fold_launch launch_offcpu (bd_offcpu_configs d1) (d1, w1)")
  have off: "bpf_inv d2" "same_setup d1 d2" using offcpus_inv [of "(d1, w1)", OF _ refl] inv d2 by simp_all
  have cfgs: "bd_profile_configs d1 = bd_profile_configs d2" using off(2) by (simp add: same_setup_def)
  have "bpf_inv (fst (fold_launch launch_profile (bd_profile_configs d1) (d2, w2)))"
    "same_setup d2 (fst (fold_launch launch_profile (bd_profile_configs d1) (d2, w2)))"
    using profiles_inv [of "(d2, w2)" "bd_profile_configs d1"] off(1) cfgs by simp_all
  moreover have "fst (Bpf_Collect d w) \<in> {d1, fst (fold_launch launch_profile (bd_profile_configs d1) (d2, w2))}"
    by (simp add: Bpf_Collect_def d1 d2)
  ultimately show ?thesis using su inv same_setup_trans [OF su same_setup_trans [OF off(2)]] by auto
qed

lemma start_inv:
  "bpf_inv d \<Longrightarrow> bpf_inv (fst (start_offcpu pr th mn mx iv d w))"
  "bpf_inv d \<Longrightarrow> bpf_inv (fst (start_profile pr th nr kb cpus d w))"
proof -
  assume inv: "bpf_inv d"
  have "bpf_inv (d\<lparr>bd_offcpu_configs := bd_offcpu_configs d @ [c]\<rparr>)" "bpf_inv (d\<lparr>bd_profile_configs := bd_profile_configs d @ [p]\<rparr>)" for c p
    by (rule bpf_inv_grow [OF inv]; auto)+
  then show "bpf_inv (fst (start_offcpu pr th mn mx iv d w))" "bpf_inv (fst (start_profile pr th nr kb cpus d w))"
    by (simp_all add: start_offcpu_def start_profile_def Let_def launch_offcpu_inv launch_profile_inv)
qed

end
