(* ===== verification/PerfDiagnoser.thy ===== *)
theory PerfDiagnoser
  imports BpfDiagnoser
begin

text \<open>
  The condition-triggered \<open>perf record\<close> (\<open>src/worker/include/diagnose/perf_diagnoser.h\<close>,
  \<open>perf_diagnoser.cpp\<close>). The worker thread is a loop; one iteration of it is \<open>worker_iter\<close>, with
  the clock, the number of clock ticks per second and the world as inputs. The locals of
  the thread (the previous samples and the previous time) are part of the state. An exception of
  \<open>std::string::substr\<close> leaves the thread and is a result of the iteration.
\<close>

section \<open>CPU time of a process\<close>

definition perf_read_pid_by_name :: "dir_listing \<Rightarrow> file_system \<Rightarrow> string \<Rightarrow> int" where
  "perf_read_pid_by_name ls fs pname =
     (case ls ''/proc'' of None \<Rightarrow> 0 | Some names \<Rightarrow> scan_comm comm_path fs pname names)"

definition stat_path :: "int \<Rightarrow> string" where
  "stat_path p = ''/proc/'' @ show_int p @ ''/stat''"

text \<open>\<open>for (int i = 1; i <= 11 && ss >> field; ++i) {}\<close>\<close>

fun skip_fields :: "nat \<Rightarrow> istream \<Rightarrow> istream" where
  "skip_fields 0 ss = ss"
| "skip_fields (Suc n) ss =
     (let (field, ss) = read_word ss [] in if is_fail ss then ss else skip_fields n ss)"

text \<open>The first line of the file, from two behind the last closing parenthesis.\<close>

definition after_comm :: "string \<Rightarrow> string option res" where
  "after_comm content =
     (let line = takeWhile (\<lambda>c. c \<noteq> newline) content
      in case rfind_char CHR '')'' line of
           None \<Rightarrow> Inr None
         | Some close_paren \<Rightarrow> bind_res (substr_from line (close_paren + 2)) (\<lambda>r. Inr (Some r)))"

definition read_proc_cpu_pct :: "file_system \<Rightarrow> int \<Rightarrow> u64 \<Rightarrow> u64 \<Rightarrow> u64 \<Rightarrow> u64 \<Rightarrow> double res" where
  "read_proc_cpu_pct fs pid prev_utime prev_stime prev_total_time delta_ms =
     (case fs (stat_path pid) of
        None \<Rightarrow> Inr (Fin (- 1))
      | Some content \<Rightarrow>
          bind_res (after_comm content) (\<lambda>r.
            case r of
              None \<Rightarrow> Inr (Fin (- 1))
            | Some rest \<Rightarrow>
                let ss = skip_fields 11 (istringstream rest);
                    (utime, ss) = read_u64 ss 0;
                    (stime, ss) = read_u64 ss 0
                in if is_fail ss then Inr (Fin (- 1))
                   else let total = utime + stime; delta = total - (prev_utime + prev_stime)
                        in if prev_total_time = 0 then Inr (Fin (- 1))
                           else Inr (ddiv (dmul (of_u64 delta) (Fin 100)) (of_u64 delta_ms))))"

record ProcSample =
  smp_utime :: u64
  smp_stime :: u64
  smp_total_time :: u64

definition ProcSample_zero :: ProcSample where
  "ProcSample_zero = \<lparr>smp_utime = 0, smp_stime = 0, smp_total_time = 0\<rparr>"

definition refresh_sample :: "file_system \<Rightarrow> int \<Rightarrow> ProcSample \<Rightarrow> ProcSample res" where
  "refresh_sample fs pid prev =
     (case fs (stat_path pid) of
        None \<Rightarrow> Inr prev
      | Some content \<Rightarrow>
          bind_res (after_comm content) (\<lambda>r.
            case r of
              None \<Rightarrow> Inr prev
            | Some rest \<Rightarrow>
                let ss = skip_fields 11 (istringstream rest);
                    (utime, ss) = read_u64 ss (smp_utime prev);
                    (stime, ss) = read_u64 ss (smp_stime prev)
                in Inr \<lparr>smp_utime = utime, smp_stime = stime, smp_total_time = utime + stime\<rparr>))"

section \<open>State\<close>

record PendingPerfEvent =
  pp_pending :: bool
  pp_type :: string
  pp_process_name :: string
  pp_file_path :: string
  pp_timestamp :: int
  pp_cpu_percent :: double

record PerfDiagnoser =
  pf_events :: "CppDiagnoseEvent list"
  pf_output_dir :: string
  pf_perf_bin :: string
  pf_cpu_threshold_pct :: int
  pf_overflow_duration_s :: int
  pf_limit_file_num :: int
  pf_target_processes :: "string list"
  pf_target_threads :: "string list"
  pf_runner :: CmdRunner
  pf_pending_ev :: PendingPerfEvent
  pf_triggered_tags :: "string list"
  pf_overflow_timers :: "(string \<times> int) list"
  pf_running :: bool
  pf_prev_samples :: "(int \<times> ProcSample) list"
  pf_prev_wall :: u64

definition PerfDiagnoser_new :: PerfDiagnoser where
  "PerfDiagnoser_new = \<lparr>pf_events = [], pf_output_dir = '''', pf_perf_bin = '''', pf_cpu_threshold_pct = 80,
     pf_overflow_duration_s = 10, pf_limit_file_num = 3, pf_target_processes = [], pf_target_threads = [], pf_runner = CmdRunner_new,
     pf_pending_ev = \<lparr>pp_pending = False, pp_type = '''', pp_process_name = '''', pp_file_path = '''', pp_timestamp = 0,
       pp_cpu_percent = Fin 0\<rparr>,
     pf_triggered_tags = [], pf_overflow_timers = [], pf_running = False, pf_prev_samples = [], pf_prev_wall = 0\<rparr>"

definition Perf_Init :: "PerfDiagnoser \<Rightarrow> world \<Rightarrow> world" where
  "Perf_Init p w = w\<lparr>w_fs := mkdir_loop (pf_output_dir p) [1..<length (pf_output_dir p) + 1] (w_fs w)\<rparr>"

text \<open>\<open>Collect\<close> starts the thread at the first call: its locals begin empty.\<close>

definition Perf_Collect :: "PerfDiagnoser \<Rightarrow> PerfDiagnoser" where
  "Perf_Collect p =
     (if pf_running p then p else p\<lparr>pf_running := True, pf_prev_samples := [], pf_prev_wall := 0\<rparr>)"

definition Perf_Reset :: "PerfDiagnoser \<Rightarrow> PerfDiagnoser" where
  "Perf_Reset p = p\<lparr>pf_events := []\<rparr>"

definition Perf_Stop :: "PerfDiagnoser \<Rightarrow> world \<Rightarrow> PerfDiagnoser \<times> world" where
  "Perf_Stop p w =
     (let p = p\<lparr>pf_running := False\<rparr>; (r, s) = Runner_Stop (pf_runner p) (w_os w)
      in (p\<lparr>pf_runner := r, pf_events := [], pf_triggered_tags := []\<rparr>, w\<lparr>w_os := s\<rparr>))"

definition check_cpu_threshold :: "PerfDiagnoser \<Rightarrow> bool" where
  "check_cpu_threshold p \<longleftrightarrow> pf_events p \<noteq> []"

section \<open>One iteration of the worker loop\<close>

text \<open>A finished \<open>perf record\<close>: its event, if its file has data, and the rotation.\<close>

definition pending_event :: "PendingPerfEvent \<Rightarrow> CppDiagnoseEvent" where
  "pending_event pp = CppDiagnoseEvent_new\<lparr>ev_type := pp_type pp, ev_process_name := pp_process_name pp,
     ev_file_path := pp_file_path pp, ev_timestamp := pp_timestamp pp, ev_cpu_percent := pp_cpu_percent pp\<rparr>"

definition has_data :: "string \<Rightarrow> fstate \<Rightarrow> bool" where
  "has_data path s = (case sys_stat path s of None \<Rightarrow> False | Some (mtime, st_size) \<Rightarrow> 0 < st_size)"

definition emit_pending :: "PerfDiagnoser \<Rightarrow> world \<Rightarrow> PerfDiagnoser \<times> world" where
  "emit_pending p w =
     (if pp_pending (pf_pending_ev p)
      then ((if has_data (pp_file_path (pf_pending_ev p)) (w_fs w)
             then p\<lparr>pf_events := pf_events p @ [pending_event (pf_pending_ev p)]\<rparr> else p)
              \<lparr>pf_pending_ev := (pf_pending_ev p)\<lparr>pp_pending := False\<rparr>\<rparr>,
            w\<lparr>w_fs := Perf_cleanup_files (pf_limit_file_num p) (pf_output_dir p) (w_ord w) ''perf_'' (w_fs w)\<rparr>)
      else (p, w))"

definition finish_perf :: "PerfDiagnoser \<Rightarrow> world \<Rightarrow> PerfDiagnoser \<times> world" where
  "finish_perf p w =
     (if pf_triggered_tags p = [] then (p, w)
      else let (running, r, s) = Runner_IsRunning (pf_runner p) (w_os w);
               p = p\<lparr>pf_runner := r\<rparr>; w = w\<lparr>w_os := s\<rparr>
           in if running then (p, w)
              else let (p, w) = emit_pending p w in (p\<lparr>pf_triggered_tags := []\<rparr>, w))"

text \<open>The debounce timer of a target: seconds above the threshold, and whether it fires.\<close>

definition overflow_step :: "int \<Rightarrow> int \<Rightarrow> int \<Rightarrow> double \<Rightarrow> bool \<times> int" where
  "overflow_step threshold duration timer cpu_pct =
     (let timer = (if dge cpu_pct (Fin (of_int threshold)) then timer + 5 else 0)
      in if duration \<le> timer then (True, 0) else (False, timer))"

definition perf_args :: "int \<Rightarrow> string \<Rightarrow> string list" where
  "perf_args pid out_file =
     [''record'', ''-g'', ''-p'', show_int pid, ''-o'', out_file, ''--'', ''sleep'', ''5'']"

definition perf_file :: "string \<Rightarrow> string \<Rightarrow> int \<Rightarrow> string" where
  "perf_file dir proc_name now = dir @ ''/perf_'' @ proc_name @ ''_'' @ show_int now @ ''.data''"

text \<open>\<open>perf_runner_\<close> is overwritten by a copy of the local runner, whose destructor then stops the child.\<close>

definition launch_perf :: "string \<Rightarrow> int \<Rightarrow> double \<Rightarrow> PerfDiagnoser \<Rightarrow> world \<Rightarrow> PerfDiagnoser \<times> world" where
  "launch_perf proc_name pid cpu_pct p w =
     (let out_file = perf_file (pf_output_dir p) proc_name (w_time w);
          (ok, runner, s) = Runner_Start (pf_perf_bin p) (perf_args pid out_file) '''' CmdRunner_new (w_os w);
          p = (if ok
               then p\<lparr>pf_runner := runner,
                      pf_triggered_tags := List.insert (proc_name @ ''_proc'') (pf_triggered_tags p),
                      pf_pending_ev := \<lparr>pp_pending = True, pp_type = ''perf'', pp_process_name = proc_name,
                        pp_file_path = out_file, pp_timestamp = w_time w, pp_cpu_percent = cpu_pct\<rparr>\<rparr>
               else p);
          s = Runner_destroy runner s
      in (p, w\<lparr>w_os := s\<rparr>))"

definition timer_of :: "string \<Rightarrow> PerfDiagnoser \<Rightarrow> int" where
  "timer_of tag p = (case map_of (pf_overflow_timers p) tag of None \<Rightarrow> 0 | Some t \<Rightarrow> t)"

text \<open>What the loop does with the percentage of a target: scale it, move the timer, launch.\<close>

definition judge_sample :: "int \<Rightarrow> string \<Rightarrow> int \<Rightarrow> double \<Rightarrow> PerfDiagnoser \<Rightarrow> world \<Rightarrow> PerfDiagnoser \<times> world" where
  "judge_sample hz proc_name pid cpu_pct p w =
     (if dlt cpu_pct (Fin 0) then (p, w)
      else let tag = proc_name @ ''_proc'';
               cpu_pct = (if 0 < hz then ddiv (dmul cpu_pct (Fin 1000)) (rnd (of_int hz)) else cpu_pct);
               (fires, timer) = overflow_step (pf_cpu_threshold_pct p) (pf_overflow_duration_s p) (timer_of tag p) cpu_pct;
               (p, w) = (if fires then launch_perf proc_name pid cpu_pct p w else (p, w))
           in (p\<lparr>pf_overflow_timers := AList.update tag timer (pf_overflow_timers p)\<rparr>, w))"

definition scan_target :: "int \<Rightarrow> u64 \<Rightarrow> string \<Rightarrow> PerfDiagnoser \<times> world \<Rightarrow> (PerfDiagnoser \<times> world) res" where
  "scan_target hz delta_ms proc_name pw =
     (let (p, w) = pw
      in if proc_name @ ''_proc'' \<in> set (pf_triggered_tags p) then Inr (p, w)
         else let pid = perf_read_pid_by_name (w_ls w) (w_proc w) proc_name
              in if pid = 0 then Inr (p, w)
                 else let prev = (case map_of (pf_prev_samples p) pid of None \<Rightarrow> ProcSample_zero | Some s \<Rightarrow> s)
                      in bind_res (read_proc_cpu_pct (w_proc w) pid (smp_utime prev) (smp_stime prev) (smp_total_time prev) delta_ms)
                           (\<lambda>cpu_pct. bind_res (refresh_sample (w_proc w) pid prev)
                             (\<lambda>sample. Inr (judge_sample hz proc_name pid cpu_pct
                                (p\<lparr>pf_prev_samples := AList.update pid sample (pf_prev_samples p)\<rparr>) w))))"

fun scan_targets :: "int \<Rightarrow> u64 \<Rightarrow> string list \<Rightarrow> PerfDiagnoser \<times> world \<Rightarrow> (PerfDiagnoser \<times> world) res" where
  "scan_targets hz delta_ms [] pw = Inr pw"
| "scan_targets hz delta_ms (t # ts) pw = bind_res (scan_target hz delta_ms t pw) (scan_targets hz delta_ms ts)"

definition worker_iter :: "u64 \<Rightarrow> int \<Rightarrow> PerfDiagnoser \<Rightarrow> world \<Rightarrow> (PerfDiagnoser \<times> world) res" where
  "worker_iter now_wall hz p w =
     (let delta_ms = (if 0 < pf_prev_wall p then now_wall - pf_prev_wall p else 5000);
          p = p\<lparr>pf_prev_wall := now_wall\<rparr>;
          (p, w) = finish_perf p w
      in scan_targets hz delta_ms (pf_target_processes p) (p, w))"

section \<open>Reading the CPU time of a process\<close>

text \<open>
  A line of \<open>/proc/<pid>/stat\<close>: number, command name in parentheses, the state, the ten fields up
  to \<open>cmajflt\<close>, user and system time, and the remaining fields. The command name is arbitrary; in
  particular it may contain blanks and parentheses.
\<close>

record proc_stat =
  st_pid :: int
  st_comm :: string
  st_state :: string
  st_fields :: "string list"
  st_utime :: u64
  st_stime :: u64
  st_extra :: string

definition stat_word :: "string \<Rightarrow> bool" where
  "stat_word f \<longleftrightarrow> f \<noteq> [] \<and> list_all (\<lambda>c. \<not> is_space c) f \<and> CHR '')'' \<notin> set f"

definition proc_stat_ok :: "proc_stat \<Rightarrow> bool" where
  "proc_stat_ok e \<longleftrightarrow> 0 \<le> st_pid e \<and> newline \<notin> set (st_comm e) \<and> length (st_fields e) = 10 \<and>
     stat_word (st_state e) \<and> list_all stat_word (st_fields e) \<and>
     no_digit_ahead (st_extra e) \<and> CHR '')'' \<notin> set (st_extra e) \<and> newline \<notin> set (st_extra e)"

definition stat_tail :: "proc_stat \<Rightarrow> string" where
  "stat_tail e = st_state e @ concat (map (\<lambda>f. CHR '' '' # f) (st_fields e)) @
     CHR '' '' # show_dec (uint (st_utime e)) @ CHR '' '' # show_dec (uint (st_stime e)) @ st_extra e"

definition proc_stat_line :: "proc_stat \<Rightarrow> string" where
  "proc_stat_line e = show_dec (st_pid e) @ '' ('' @ st_comm e @ '') '' @ stat_tail e"

lemma skip_fields_words:
  assumes "list_all stat_word ws"
  shows "skip_fields (length ws) \<lparr>is_rest = concat (map (\<lambda>f. CHR '' '' # f) ws) @ CHR '' '' # r, is_eof = False, is_fail = False\<rparr> =
    \<lparr>is_rest = CHR '' '' # r, is_eof = False, is_fail = False\<rparr>"
  using assms
proof (induction ws)
  case (Cons f ws)
  then have f: "f \<noteq> []" "list_all (\<lambda>c. \<not> is_space c) f" by (simp_all add: stat_word_def)
  show ?case
  proof (cases ws)
    case Nil
    then show ?thesis using read_word_field [OF f, of r "[]"] by simp
  next
    case (Cons g gs)
    then show ?thesis
      using read_word_field [OF f, of "g @ concat (map (\<lambda>f. CHR '' '' # f) gs) @ CHR '' '' # r" "[]"] Cons.IH Cons.prems by simp
  qed
qed simp

lemma read_times:
  assumes "proc_stat_ok e"
  shows "skip_fields 11 (istringstream (stat_tail e)) =
    \<lparr>is_rest = CHR '' '' # show_dec (uint (st_utime e)) @ CHR '' '' # show_dec (uint (st_stime e)) @ st_extra e, is_eof = False, is_fail = False\<rparr>"
proof -
  define r where "r = show_dec (uint (st_utime e)) @ CHR '' '' # show_dec (uint (st_stime e)) @ st_extra e"
  obtain g gs where fs: "st_fields e = g # gs" using assms by (cases "st_fields e") (auto simp: proc_stat_ok_def)
  have "read_word (istringstream (stat_tail e)) [] =
      (st_state e, \<lparr>is_rest = concat (map (\<lambda>f. CHR '' '' # f) (st_fields e)) @ CHR '' '' # r, is_eof = False, is_fail = False\<rparr>)"
    using assms read_word_ws [of "[]" "st_state e" "g @ concat (map (\<lambda>f. CHR '' '' # f) gs) @ CHR '' '' # r" "[]"]
    by (simp add: istringstream_def stat_tail_def r_def fs proc_stat_ok_def stat_word_def)
  moreover have "skip_fields 10 \<lparr>is_rest = concat (map (\<lambda>f. CHR '' '' # f) (st_fields e)) @ CHR '' '' # r, is_eof = False, is_fail = False\<rparr> =
      \<lparr>is_rest = CHR '' '' # r, is_eof = False, is_fail = False\<rparr>"
    using skip_fields_words [of "st_fields e" r] assms by (simp add: proc_stat_ok_def)
  moreover have "(11::nat) = Suc 10" by simp
  ultimately show ?thesis by (simp only: skip_fields.simps(2)) (simp add: r_def)
qed

lemma after_comm_line:
  assumes "proc_stat_ok e"
  shows "after_comm (proc_stat_line e @ newline # ends) = Inr (Some (stat_tail e))"
proof -
  let ?pre = "show_dec (st_pid e) @ '' ('' @ st_comm e"
  have nl: "is_space newline" by (simp add: is_space_def)
  have words: "newline \<notin> set f \<and> CHR '')'' \<notin> set f" if "stat_word f" for f
    using that nl by (auto simp: stat_word_def list_all_iff)
  have digits: "CHR '')'' \<notin> set (show_dec n)" if "0 \<le> n" for n
    using show_dec_digits [OF that] by (auto simp: list_all_iff is_digit_def)
  have fields: "newline \<notin> set (concat (map (\<lambda>f. CHR '' '' # f) fs)) \<and> CHR '')'' \<notin> set (concat (map (\<lambda>f. CHR '' '' # f) fs))"
    if "list_all stat_word fs" for fs
    using that words by (induction fs) auto
  have tail: "newline \<notin> set (stat_tail e) \<and> CHR '')'' \<notin> set (stat_tail e)"
    using assms words [of "st_state e"] fields [of "st_fields e"] digits [of "uint (st_utime e)"] digits [of "uint (st_stime e)"]
    by (simp add: stat_tail_def proc_stat_ok_def del: set_concat)
  have "newline \<notin> set (proc_stat_line e)"
    using assms tail by (simp add: proc_stat_line_def proc_stat_ok_def)
  then have line: "takeWhile (\<lambda>c. c \<noteq> newline) (proc_stat_line e @ newline # ends) = proc_stat_line e"
    by (simp add: takeWhile_append takeWhile_eq_all_conv)
  have split: "proc_stat_line e = ?pre @ CHR '')'' # CHR '' '' # stat_tail e" by (simp add: proc_stat_line_def)
  have "rfind_char CHR '')'' (proc_stat_line e) = Some (length ?pre)"
    unfolding split using tail by (intro rfind_char_append) simp
  moreover have "drop (length a + 2) (a @ x # y # r) = r" for a r :: string and x y by simp
  then have "drop (length ?pre + 2) (proc_stat_line e) = stat_tail e" unfolding split .
  moreover have "length ?pre + 2 \<le> length (proc_stat_line e)" unfolding split by simp
  ultimately show ?thesis unfolding after_comm_def line Let_def by (simp add: substr_from_def)
qed

lemma read_pct_line:
  assumes "proc_stat_ok e" and "fs (stat_path pid) = Some (proc_stat_line e @ newline # ends)" and "t \<noteq> 0"
  shows "read_proc_cpu_pct fs pid u s t ms =
    Inr (ddiv (dmul (of_u64 (st_utime e + st_stime e - (u + s))) (Fin 100)) (of_u64 ms))"
  using assms read_times [OF assms(1)] unfolding read_proc_cpu_pct_def
  by (simp add: after_comm_line Let_def read_u64_field proc_stat_ok_def is_digit_def)

text \<open>
  C35: From the stat line of a process, whatever characters its command name contains, the reader
  finds exactly user and system time, and reports the rounded number of ticks since the previous
  sample, times 100, per elapsed millisecond; the sums of the two times may wrap.
\<close>

theorem perf_cpu_pct_exact:
  assumes "proc_stat_ok e" and "fs (stat_path pid) = Some (proc_stat_line e @ newline # ends)" and "t \<noteq> 0"
    and "u \<le> st_utime e" and "s \<le> st_stime e"
    and "uint (st_utime e) - uint u = n" and "uint (st_stime e) - uint s = k" and "n + k \<le> 2 ^ 46"
    and "uint ms = m" and "0 < m" and "m \<le> 2 ^ 53"
  shows "read_proc_cpu_pct fs pid u s t ms = Inr (rnd (100 * of_int (n + k) / of_int m))"
proof -
  have nk: "0 \<le> n" "0 \<le> k" using assms(4-7) by (auto simp: word_le_def)
  have "of_u64 (st_utime e + st_stime e - (u + s)) = Fin (of_int (n + k))"
    using assms(4-8) by (intro u64_sum_diff_exact) simp_all
  moreover have "rnd (of_int ((n + k) * 100)) = Fin (of_int ((n + k) * 100))"
    using nk assms(8) by (intro rnd_of_int) simp
  moreover have "of_u64 ms = Fin (of_int m)"
    using assms(10,11) unfolding of_u64_def assms(9) by (intro rnd_of_int) simp
  ultimately show ?thesis
    using assms(10) read_pct_line [of e fs pid ends t u s ms] assms(1-3) by (simp add: mult.commute)
qed

definition demo_stat :: "u64 \<Rightarrow> proc_stat" where
  "demo_stat n = \<lparr>st_pid = 42, st_comm = ''a) b (c'', st_state = ''R'', st_fields = replicate 10 ''7'',
     st_utime = n, st_stime = n, st_extra = '' 0 0 20''\<rparr>"

lemma demo_stat_ok: "proc_stat_ok (demo_stat n)"
  by (simp add: demo_stat_def proc_stat_ok_def stat_word_def is_space_def is_digit_def list_all_iff)

theorem perf_cpu_pct_exact_witness:
  "read_proc_cpu_pct (\<lambda>path. Some (proc_stat_line (demo_stat 300) @ [newline])) 42 100 100 200 5000 =
    Inr (rnd (100 * of_int (200 + 200) / of_int 5000))"
  by (rule perf_cpu_pct_exact [OF demo_stat_ok [of 300], of _ _ "[]"]) (simp_all add: demo_stat_def)

text \<open>
  C36: Reading a stat file raises \<open>std::out_of_range\<close>, which ends the process since the worker
  thread has no handler, exactly when its first line ends in a closing parenthesis.
\<close>

theorem perf_stat_raises_iff:
  "(\<exists>x. after_comm content = Inl x) \<longleftrightarrow>
    (\<exists>pre. takeWhile (\<lambda>c. c \<noteq> newline) content = pre @ '')'')"
proof (cases "rfind_char CHR '')'' (takeWhile (\<lambda>c. c \<noteq> newline) content)")
  case None
  then have "after_comm content = Inr None" by (simp add: after_comm_def)
  moreover from None have "CHR '')'' \<notin> set (takeWhile (\<lambda>c. c \<noteq> newline) content)" by (simp add: rfind_char_None)
  then have "takeWhile (\<lambda>c. c \<noteq> newline) content \<noteq> pre @ '')''" for pre by (metis in_set_conv_decomp)
  ultimately show ?thesis by auto
next
  case (Some i)
  define line where "line = takeWhile (\<lambda>c. c \<noteq> newline) content"
  have i: "i < length line" "line ! i = CHR '')''" "CHR '')'' \<notin> set (drop (Suc i) line)"
    using Some by (simp_all add: rfind_char_Some line_def)
  have "(\<exists>x. after_comm content = Inl x) \<longleftrightarrow> length line < i + 2"
    using Some by (simp add: after_comm_def line_def [symmetric] substr_from_def not_le)
  also have "\<dots> \<longleftrightarrow> drop (Suc i) line = []" using i(1) by auto
  also have "\<dots> \<longleftrightarrow> (\<exists>pre. line = pre @ '')'')"
  proof
    assume "drop (Suc i) line = []"
    then show "\<exists>pre. line = pre @ '')''" using i id_take_nth_drop [OF i(1)] by auto
  next
    assume "\<exists>pre. line = pre @ '')''"
    then obtain pre where "line = pre @ '')''" by blast
    with i show "drop (Suc i) line = []"
      by (cases "i = length pre") (auto simp: drop_append)
  qed
  finally show ?thesis by (simp add: line_def)
qed

section \<open>The debounce timer\<close>

text \<open>The timer over a sequence of samples that are all valid, from zero; the flag is whether the last one fired.\<close>

definition over :: "int \<Rightarrow> double \<Rightarrow> bool" where
  "over threshold pct \<longleftrightarrow> dge pct (Fin (of_int threshold))"

fun timer_run :: "int \<Rightarrow> int \<Rightarrow> int \<Rightarrow> double list \<Rightarrow> bool list" where
  "timer_run threshold duration t [] = []"
| "timer_run threshold duration t (x # xs) =
     (case overflow_step threshold duration t x of (fires, t') \<Rightarrow> fires # timer_run threshold duration t' xs)"

text \<open>Samples above the threshold needed to fire: the duration in steps of five seconds, rounded up.\<close>

definition needed :: "int \<Rightarrow> nat" where
  "needed duration = nat ((duration + 4) div 5)"

lemma timer_run_quiet:
  assumes "0 < duration" and "0 \<le> t" and "t + 5 * int (length xs) < duration" and "list_all (over threshold) xs"
  shows "timer_run threshold duration t (xs @ ys) = replicate (length xs) False @ timer_run threshold duration (t + 5 * int (length xs)) ys"
  using assms
proof (induction xs arbitrary: t)
  case (Cons x xs)
  then have "overflow_step threshold duration t x = (False, t + 5)"
    by (simp add: overflow_step_def over_def)
  moreover have "timer_run threshold duration (t + 5) (xs @ ys) =
      replicate (length xs) False @ timer_run threshold duration (t + 5 + 5 * int (length xs)) ys"
    using Cons by simp
  ultimately show ?case by (simp add: algebra_simps)
qed simp

lemma timer_step_below: "0 < duration \<Longrightarrow> \<not> over threshold x \<Longrightarrow> overflow_step threshold duration t x = (False, 0)"
  by (simp add: overflow_step_def over_def)

text \<open>
  C34: Over consecutive valid samples, \<open>perf record\<close> is triggered exactly at the sample that completes
  a run of as many samples at or above the threshold as the duration has five-second steps, rounded
  up; a shorter run that ends below the threshold triggers nothing and starts the count anew, as
  does a trigger.
\<close>

theorem perf_debounce:
  assumes "0 < duration" and "list_all (over threshold) xs"
  shows "if length xs < needed duration
    then \<forall>x zs. \<not> over threshold x \<longrightarrow> timer_run threshold duration 0 (xs @ x # zs) =
           replicate (length xs) False @ False # timer_run threshold duration 0 zs
    else timer_run threshold duration 0 (xs @ ys) =
           replicate (needed duration - 1) False @ True # timer_run threshold duration 0 (drop (needed duration) xs @ ys)"
proof (cases "length xs < needed duration")
  case True
  then have lt: "5 * int (length xs) < duration" by (simp add: needed_def)
  show ?thesis
    using True timer_run_quiet [OF assms(1), of 0 xs threshold] lt assms timer_step_below [OF assms(1)] by simp
next
  case False
  define k where "k = needed duration - 1"
  have pos: "0 < needed duration" using assms(1) by (simp add: needed_def)
  have nk: "needed duration = Suc k" using pos by (simp add: k_def)
  have k: "5 * int k < duration" "duration \<le> 5 * int k + 5"
    using assms(1) pos by (simp_all add: k_def needed_def of_nat_diff)
  have kl: "k < length xs" using False nk by simp
  have split: "xs = take k xs @ xs ! k # drop (needed duration) xs" using id_take_nth_drop [OF kl] nk by simp
  have ov: "list_all (over threshold) (take k xs)" "over threshold (xs ! k)"
    using assms(2) kl by (auto simp: list_all_iff dest: in_set_takeD)
  have "overflow_step threshold duration (5 * int k) (xs ! k) = (True, 0)"
    using ov(2) k(2) by (simp add: overflow_step_def over_def)
  with timer_run_quiet [OF assms(1), of 0 "take k xs" threshold "xs ! k # drop (needed duration) xs @ ys"] ov(1) k(1) kl
  have "timer_run threshold duration 0 (take k xs @ xs ! k # drop (needed duration) xs @ ys) =
      replicate k False @ True # timer_run threshold duration 0 (drop (needed duration) xs @ ys)"
    by simp
  with False split show ?thesis by (metis append.assoc append_Cons k_def)
qed

theorem perf_debounce_witness:
  "timer_run 80 10 0 [Fin 90, Fin 85, Fin 99] = [False, True, False]"
  using perf_debounce [of 10 80 "[Fin 90, Fin 85, Fin 99]" "[]"]
  by (simp add: over_def dge_def needed_def overflow_step_def)

section \<open>The worker as a state machine\<close>

text \<open>
  The configuration is fixed before \<open>Init\<close>; from then on the object changes by iterations of the
  worker, in any world, and by the calls of the pusher.
\<close>

inductive perf_reachable :: "PerfDiagnoser \<Rightarrow> bool" where
  perf_start: "perf_reachable (PerfDiagnoser_new\<lparr>pf_output_dir := dir, pf_perf_bin := bin, pf_cpu_threshold_pct := thr,
    pf_overflow_duration_s := dur, pf_limit_file_num := limit, pf_target_processes := targets, pf_target_threads := threads\<rparr>)"
| perf_iter: "perf_reachable p \<Longrightarrow> worker_iter now hz p w = Inr (p', w') \<Longrightarrow> perf_reachable p'"
| perf_collect: "perf_reachable p \<Longrightarrow> perf_reachable (Perf_Collect p)"
| perf_reset: "perf_reachable p \<Longrightarrow> perf_reachable (Perf_Reset p)"
| perf_stop: "perf_reachable p \<Longrightarrow> perf_reachable (fst (Perf_Stop p w))"

text \<open>
  What an event says: a configured target, its file in the output directory, and a percentage at or
  above the threshold, unless the configured duration is not positive; then the timer is never
  below it and every valid sample fires.
\<close>

definition perf_report_ok :: "PerfDiagnoser \<Rightarrow> string \<Rightarrow> string \<Rightarrow> double \<Rightarrow> bool" where
  "perf_report_ok p process path pct \<longleftrightarrow> process \<in> set (pf_target_processes p) \<and>
     (\<exists>now. path = perf_file (pf_output_dir p) process now) \<and>
     (over (pf_cpu_threshold_pct p) pct \<or> pf_overflow_duration_s p \<le> 0)"

definition perf_inv :: "PerfDiagnoser \<Rightarrow> bool" where
  "perf_inv p \<longleftrightarrow>
     (pp_pending (pf_pending_ev p) \<longrightarrow> pp_type (pf_pending_ev p) = ''perf'' \<and>
        perf_report_ok p (pp_process_name (pf_pending_ev p)) (pp_file_path (pf_pending_ev p)) (pp_cpu_percent (pf_pending_ev p))) \<and>
     list_all (\<lambda>ev. ev_type ev = ''perf'' \<and> perf_report_ok p (ev_process_name ev) (ev_file_path ev) (ev_cpu_percent ev)) (pf_events p)"

definition same_perf_config :: "PerfDiagnoser \<Rightarrow> PerfDiagnoser \<Rightarrow> bool" where
  "same_perf_config p p' \<longleftrightarrow> pf_output_dir p' = pf_output_dir p \<and> pf_cpu_threshold_pct p' = pf_cpu_threshold_pct p \<and>
     pf_overflow_duration_s p' = pf_overflow_duration_s p \<and> pf_target_processes p' = pf_target_processes p"

lemma perf_inv_cong:
  assumes "perf_inv p" and "same_perf_config p p'" and "pf_pending_ev p' = pf_pending_ev p" and "pf_events p' = pf_events p"
  shows "perf_inv p'"
  using assms by (simp add: perf_inv_def perf_report_ok_def same_perf_config_def)

lemma emit_pending_inv:
  assumes "perf_inv p"
  shows "perf_inv (fst (emit_pending p w)) \<and> same_perf_config p (fst (emit_pending p w))"
  using assms by (auto simp: emit_pending_def perf_inv_def perf_report_ok_def same_perf_config_def pending_event_def)

lemma finish_perf_inv:
  assumes "perf_inv p"
  shows "perf_inv (fst (finish_perf p w)) \<and> same_perf_config p (fst (finish_perf p w))"
proof (cases "pf_triggered_tags p = []")
  case True
  with assms show ?thesis by (simp add: finish_perf_def same_perf_config_def)
next
  case False
  obtain running r s where run: "Runner_IsRunning (pf_runner p) (w_os w) = (running, r, s)"
    by (cases "Runner_IsRunning (pf_runner p) (w_os w)") auto
  let ?p = "p\<lparr>pf_runner := r\<rparr>" and ?w = "w\<lparr>w_os := s\<rparr>"
  have p: "perf_inv ?p" "same_perf_config p ?p"
    using assms by (auto intro: perf_inv_cong simp: same_perf_config_def)
  let ?q = "fst (emit_pending ?p ?w)"
  from emit_pending_inv [OF p(1), of ?w] have q: "perf_inv ?q" "same_perf_config ?p ?q" by simp_all
  then have "perf_inv (?q\<lparr>pf_triggered_tags := []\<rparr>)"
    by (auto intro: perf_inv_cong simp: same_perf_config_def)
  with p q False run show ?thesis by (auto simp: finish_perf_def Let_def split_beta same_perf_config_def)
qed

lemma launch_perf_inv:
  assumes "perf_inv p" and "proc \<in> set (pf_target_processes p)"
    and "over (pf_cpu_threshold_pct p) pct \<or> pf_overflow_duration_s p \<le> 0"
  shows "perf_inv (fst (launch_perf proc pid pct p w)) \<and> same_perf_config p (fst (launch_perf proc pid pct p w))"
  using assms by (auto simp: launch_perf_def Let_def split_beta perf_inv_def perf_report_ok_def same_perf_config_def)

lemma fires_over: "overflow_step thr dur t pct = (True, t') \<Longrightarrow> over thr pct \<or> dur \<le> 0"
  by (auto simp: overflow_step_def over_def Let_def split: if_splits)

lemma judge_sample_inv:
  assumes inv: "perf_inv p" and "proc \<in> set (pf_target_processes p)"
  shows "perf_inv (fst (judge_sample hz proc pid pct p w)) \<and> same_perf_config p (fst (judge_sample hz proc pid pct p w))"
proof (cases "dlt pct (Fin 0)")
  case True
  with inv show ?thesis by (simp add: judge_sample_def same_perf_config_def)
next
  case False
  define c where "c = (if 0 < hz then ddiv (dmul pct (Fin 1000)) (rnd (of_int hz)) else pct)"
  obtain fires t where st: "overflow_step (pf_cpu_threshold_pct p) (pf_overflow_duration_s p) (timer_of (proc @ ''_proc'') p) c = (fires, t)"
    by fastforce
  define q where "q = (if fires then fst (launch_perf proc pid c p w) else p)"
  have "perf_inv q \<and> same_perf_config p q"
    using launch_perf_inv [OF assms] fires_over st inv by (auto simp: q_def same_perf_config_def)
  then have "perf_inv (q\<lparr>pf_overflow_timers := tm\<rparr>) \<and> same_perf_config p (q\<lparr>pf_overflow_timers := tm\<rparr>)" for tm
    by (auto intro: perf_inv_cong simp: same_perf_config_def)
  moreover have "\<exists>tm. fst (judge_sample hz proc pid pct p w) = q\<lparr>pf_overflow_timers := tm\<rparr>"
    using False st by (cases fires) (auto simp: judge_sample_def Let_def split_beta q_def c_def)
  ultimately show ?thesis by auto
qed

lemma scan_target_cases:
  assumes "scan_target hz ms proc (p, w) = Inr (p', w')"
  obtains "p' = p" | pid pct smp where "p' = fst (judge_sample hz proc pid pct (p\<lparr>pf_prev_samples := smp\<rparr>) w)"
  using assms unfolding scan_target_def Let_def prod.case by (auto split: if_splits) (metis fst_conv)

lemma scan_target_inv:
  assumes inv: "perf_inv p" and t: "proc \<in> set (pf_target_processes p)" and ok: "scan_target hz ms proc (p, w) = Inr (p', w')"
  shows "perf_inv p' \<and> same_perf_config p p'"
  using ok
proof (cases rule: scan_target_cases)
  case (2 pid pct smp)
  let ?p = "p\<lparr>pf_prev_samples := smp\<rparr>"
  have "perf_inv ?p" using inv by (rule perf_inv_cong) (simp_all add: same_perf_config_def)
  with judge_sample_inv [of ?p proc hz pid pct w] t show ?thesis
    unfolding 2 by (simp add: same_perf_config_def)
qed (use inv in \<open>simp add: same_perf_config_def\<close>)

lemma scan_targets_inv:
  assumes "perf_inv p" and "set ts \<subseteq> set (pf_target_processes p)" and "scan_targets hz ms ts (p, w) = Inr (p', w')"
  shows "perf_inv p' \<and> same_perf_config p p'"
  using assms
proof (induction ts arbitrary: p w)
  case Nil
  then show ?case by (simp add: same_perf_config_def)
next
  case (Cons t ts)
  then obtain q v where q: "scan_target hz ms t (p, w) = Inr (q, v)" "scan_targets hz ms ts (q, v) = Inr (p', w')" by auto
  with scan_target_inv [OF Cons.prems(1) _ q(1)] Cons.prems(2) have "perf_inv q" "same_perf_config p q" by simp_all
  with Cons.IH [of q v] q(2) Cons.prems(2) show ?case by (simp add: same_perf_config_def)
qed

lemma worker_iter_inv:
  assumes "perf_inv p" and "worker_iter now hz p w = Inr (p', w')"
  shows "perf_inv p' \<and> same_perf_config p p'"
proof -
  let ?p = "p\<lparr>pf_prev_wall := now\<rparr>"
  have "perf_inv ?p" using assms(1) by (rule perf_inv_cong) (simp_all add: same_perf_config_def)
  moreover obtain q v where q: "finish_perf ?p w = (q, v)" by fastforce
  ultimately have "perf_inv q" "same_perf_config ?p q" using finish_perf_inv [of ?p w] by simp_all
  moreover obtain ms where "scan_targets hz ms (pf_target_processes q) (q, v) = Inr (p', w')"
    using assms(2) q unfolding worker_iter_def Let_def by auto
  ultimately show ?thesis using scan_targets_inv [of q "pf_target_processes q"] by (simp add: same_perf_config_def)
qed

lemma perf_calls_inv:
  assumes "perf_inv p"
  shows "perf_inv (Perf_Collect p) \<and> same_perf_config p (Perf_Collect p)"
    "perf_inv (Perf_Reset p) \<and> same_perf_config p (Perf_Reset p)"
    "perf_inv (fst (Perf_Stop p w)) \<and> same_perf_config p (fst (Perf_Stop p w))"
  using assms by (simp_all add: Perf_Collect_def Perf_Reset_def Perf_Stop_def perf_inv_def perf_report_ok_def
      same_perf_config_def Let_def split_beta)

text \<open>An iteration only appends to the events: at most the one pending event.\<close>

lemma scan_target_events: "scan_target hz ms t (p, w) = Inr (p', w') \<Longrightarrow> pf_events p' = pf_events p"
proof -
  have l: "pf_events (fst (launch_perf proc pid pct p w)) = pf_events p" for proc pid pct p w
    by (simp add: launch_perf_def Let_def split_beta)
  have "pf_events (fst (judge_sample hz proc pid pct p w)) = pf_events p" for proc pid pct p w
    by (simp add: judge_sample_def Let_def split_beta l)
  then show "scan_target hz ms t (p, w) = Inr (p', w') \<Longrightarrow> pf_events p' = pf_events p"
    by (auto elim!: scan_target_cases)
qed

lemma scan_targets_events: "scan_targets hz ms ts (p, w) = Inr (p', w') \<Longrightarrow> pf_events p' = pf_events p"
proof (induction ts arbitrary: p w)
  case (Cons t ts)
  then obtain q v where "scan_target hz ms t (p, w) = Inr (q, v)" "scan_targets hz ms ts (q, v) = Inr (p', w')" by auto
  with Cons.IH scan_target_events show ?case by metis
qed simp

lemma worker_iter_events:
  assumes "worker_iter now hz p w = Inr (p', w')"
  shows "\<exists>new. pf_events p' = pf_events p @ new \<and> (new = [] \<or> new = [pending_event (pf_pending_ev p)] \<and> pp_pending (pf_pending_ev p))"
proof -
  let ?p = "p\<lparr>pf_prev_wall := now\<rparr>"
  obtain q v where q: "finish_perf ?p w = (q, v)" by fastforce
  then have "pf_events p' = pf_events q"
    using assms unfolding worker_iter_def Let_def by (auto intro: scan_targets_events)
  moreover have "\<exists>new. pf_events (fst (finish_perf ?p w)) = pf_events p @ new \<and>
      (new = [] \<or> new = [pending_event (pf_pending_ev p)] \<and> pp_pending (pf_pending_ev p))"
    by (auto simp: finish_perf_def emit_pending_def Let_def split_beta)
  ultimately show ?thesis using q by simp
qed

lemma perf_reachable_inv: "perf_reachable p \<Longrightarrow> perf_inv p"
proof (induction rule: perf_reachable.induct)
  case perf_start
  show ?case by (simp add: perf_inv_def PerfDiagnoser_new_def)
qed (simp_all add: worker_iter_inv perf_calls_inv)

text \<open>
  C33: In every reachable state of the perf diagnoser, each event it holds names a configured target
  and points to a file \<open>perf_<target>_<time>.data\<close> in the output directory. When the configured
  duration is positive, its CPU percentage is at or above the configured threshold; a duration of 0
  or less switches the threshold off, as \<open>perf_zero_duration_fires\<close> shows.
\<close>

theorem perf_events_justified:
  assumes "perf_reachable p" and "ev \<in> set (pf_events p)"
  shows "ev_type ev = ''perf'' \<and> ev_process_name ev \<in> set (pf_target_processes p) \<and>
    (\<exists>now. ev_file_path ev = perf_file (pf_output_dir p) (ev_process_name ev) now) \<and>
    (over (pf_cpu_threshold_pct p) (ev_cpu_percent ev) \<or> pf_overflow_duration_s p \<le> 0)"
  using perf_reachable_inv [OF assms(1)] assms(2) by (simp add: perf_inv_def perf_report_ok_def list_all_iff)

text \<open>A run of the worker over a sequence of clock values and worlds.\<close>

fun perf_run :: "(u64 \<times> world) list \<Rightarrow> PerfDiagnoser \<Rightarrow> PerfDiagnoser res" where
  "perf_run [] p = Inr p"
| "perf_run ((now, w) # ws) p = bind_res (worker_iter now 100 p w) (\<lambda>(p', w'). perf_run ws p')"

lemma perf_run_reachable: "perf_reachable p \<Longrightarrow> perf_run ws p = Inr p' \<Longrightarrow> perf_reachable p'"
  by (induction ws p rule: perf_run.induct) (auto intro: perf_reachable.perf_iter)

definition demo_perf_world :: "u64 \<Rightarrow> nat list \<Rightarrow> world" where
  "demo_perf_world ticks forks = (demo_world forks)\<lparr>
     w_fs := \<lparr>fs_dirs = [''/d''], fs_meta = [(''/d/perf_nginx_1700.data'', 5, 9)]\<rparr>,
     w_ls := (\<lambda>d. Some [''42'']),
     w_proc := (\<lambda>path. if path = ''/proc/42/comm'' then Some (''nginx'' @ [newline])
       else if path = ''/proc/42/stat'' then Some (proc_stat_line (demo_stat ticks) @ [newline]) else None)\<rparr>"

definition demo_perf :: PerfDiagnoser where
  "demo_perf = PerfDiagnoser_new\<lparr>pf_output_dir := ''/d'', pf_perf_bin := ''/usr/bin/perf'', pf_cpu_threshold_pct := 50,
     pf_overflow_duration_s := 5, pf_limit_file_num := 3, pf_target_processes := [''nginx''], pf_target_threads := []\<rparr>"

definition demo_perf_run :: "PerfDiagnoser res" where
  "demo_perf_run = perf_run [(1000, demo_perf_world 100 []), (6000, demo_perf_world 400 [77]), (11000, demo_perf_world 420 [])] demo_perf"

lemma demo_perf_run_events:
  "map_sum (\<lambda>e. e) (\<lambda>p. map (\<lambda>ev. (ev_process_name ev, ev_file_path ev, ev_cpu_percent ev)) (pf_events p)) demo_perf_run =
     Inr [(''nginx'', ''/d/perf_nginx_1700.data'', Fin 120)]"
  by code_simp

theorem perf_events_justified_witness:
  "\<exists>p ev. demo_perf_run = Inr p \<and> ev \<in> set (pf_events p) \<and> ev_process_name ev = ''nginx'' \<and>
    ev_type ev = ''perf'' \<and> (over (pf_cpu_threshold_pct p) (ev_cpu_percent ev) \<or> pf_overflow_duration_s p \<le> 0)"
proof -
  have returns: "map_sum (\<lambda>e. e) f r = Inr y \<Longrightarrow> \<exists>p. r = Inr p" for f r and y :: "(string \<times> string \<times> double) list"
    by (cases r) simp_all
  obtain p where p: "demo_perf_run = Inr p" using returns [OF demo_perf_run_events] by blast
  have "map (\<lambda>ev. (ev_process_name ev, ev_file_path ev, ev_cpu_percent ev)) (pf_events p) =
      [(''nginx'', ''/d/perf_nginx_1700.data'', Fin 120)]"
    using demo_perf_run_events unfolding p by simp
  then obtain ev where ev: "ev \<in> set (pf_events p)" "ev_process_name ev = ''nginx''"
    by (cases "pf_events p") auto
  have "perf_reachable demo_perf" unfolding demo_perf_def by (rule perf_start)
  then have "perf_reachable p" using p unfolding demo_perf_run_def by (rule perf_run_reachable)
  from perf_events_justified [OF this ev(1)] p ev show ?thesis by blast
qed

text \<open>
  With a duration of 0 the comparison of the timer always holds, and a process that used no CPU time
  at all is recorded and reported, against a threshold of 50 percent.
\<close>

lemma perf_zero_duration_fires:
  "overflow_step threshold 0 0 (Fin 0) = (True, 0)"
  "map_sum (\<lambda>e. e) (\<lambda>p. map (\<lambda>ev. (ev_process_name ev, ev_cpu_percent ev)) (pf_events p))
     (perf_run [(1000, demo_perf_world 100 []), (6000, demo_perf_world 100 [77]), (11000, demo_perf_world 100 [])]
        (demo_perf\<lparr>pf_overflow_duration_s := 0\<rparr>)) = Inr [(''nginx'', Fin 0)]"
proof -
  show "overflow_step threshold 0 0 (Fin 0) = (True, 0)" by (simp add: overflow_step_def)
qed code_simp

text \<open>
  The class comment promises a threshold exceeded for consecutive seconds. The timer is only
  touched by a valid sample, so an absence of the process between two samples does not reset it:
  here the process is missing in the third iteration, and the fourth still triggers.
\<close>

lemma perf_timer_survives_absence:
  "map_sum (\<lambda>e. e) pf_triggered_tags
     (perf_run [(1000, demo_perf_world 100 []), (6000, demo_perf_world 400 []),
        (11000, (demo_perf_world 400 [])\<lparr>w_ls := (\<lambda>d. Some [])\<rparr>), (16000, demo_perf_world 700 [77])]
        (demo_perf\<lparr>pf_overflow_duration_s := 10\<rparr>)) = Inr [''nginx_proc'']"
  by code_simp

section \<open>Overlapping launches\<close>

lemma launch_perf_started:
  assumes "os_forks (w_os w) = n # ns" and "0 < n"
  shows "launch_perf proc pid pct p w =
    (p\<lparr>pf_runner := \<lparr>runner_pid = int n, runner_output = []\<rparr>,
       pf_triggered_tags := List.insert (proc @ ''_proc'') (pf_triggered_tags p),
       pf_pending_ev := \<lparr>pp_pending = True, pp_type = ''perf'', pp_process_name = proc,
         pp_file_path = perf_file (pf_output_dir p) proc (w_time w), pp_timestamp = w_time w, pp_cpu_percent = pct\<rparr>\<rparr>,
     snd (launch_perf proc pid pct p w))"
    and "os_terms (w_os (snd (launch_perf proc pid pct p w))) = os_terms (w_os w) @ [int n]"
    and "os_forks (w_os (snd (launch_perf proc pid pct p w))) = ns"
proof -
  have "Runner_Start b a [] CmdRunner_new (w_os w) = (True, \<lparr>runner_pid = int n, runner_output = []\<rparr>,
      (w_os w)\<lparr>os_forks := ns, os_children := AList.update (int n) Running (os_children (w_os w)),
        os_images := os_images (w_os w) @ [\<lparr>img_pid = int n, img_bin = b, img_argv = b # a, img_output = [], img_pdeathsig = True\<rparr>]\<rparr>)" for b a
    using assms by (simp add: Runner_Start_def sys_fork_def CmdRunner_new_def Let_def)
  then show "launch_perf proc pid pct p w =
    (p\<lparr>pf_runner := \<lparr>runner_pid = int n, runner_output = []\<rparr>,
       pf_triggered_tags := List.insert (proc @ ''_proc'') (pf_triggered_tags p),
       pf_pending_ev := \<lparr>pp_pending = True, pp_type = ''perf'', pp_process_name = proc,
         pp_file_path = perf_file (pf_output_dir p) proc (w_time w), pp_timestamp = w_time w, pp_cpu_percent = pct\<rparr>\<rparr>,
     snd (launch_perf proc pid pct p w))"
    and "os_terms (w_os (snd (launch_perf proc pid pct p w))) = os_terms (w_os w) @ [int n]"
    and "os_forks (w_os (snd (launch_perf proc pid pct p w))) = ns"
    using assms(2) by (simp_all add: launch_perf_def Let_def terms_destroy)
qed

text \<open>
  A target \<open>(name, pid, pct)\<close> that is due in an iteration: the process is found, both readings of its
  stat file succeed, the scaled percentage is \<open>pct\<close>, and with it the debounce timer fires.
\<close>

definition sample_of :: "int \<Rightarrow> PerfDiagnoser \<Rightarrow> ProcSample" where
  "sample_of pid p = (case map_of (pf_prev_samples p) pid of None \<Rightarrow> ProcSample_zero | Some s \<Rightarrow> s)"

definition due :: "int \<Rightarrow> u64 \<Rightarrow> PerfDiagnoser \<Rightarrow> world \<Rightarrow> string \<times> int \<times> double \<Rightarrow> bool" where
  "due hz ms p w t \<longleftrightarrow> (case t of (name, pid, pct) \<Rightarrow>
     perf_read_pid_by_name (w_ls w) (w_proc w) name = pid \<and> pid \<noteq> 0 \<and>
     (\<exists>c smp. read_proc_cpu_pct (w_proc w) pid (smp_utime (sample_of pid p)) (smp_stime (sample_of pid p))
          (smp_total_time (sample_of pid p)) ms = Inr c \<and>
        refresh_sample (w_proc w) pid (sample_of pid p) = Inr smp \<and> \<not> dlt c (Fin 0) \<and>
        pct = (if 0 < hz then ddiv (dmul c (Fin 1000)) (rnd (of_int hz)) else c)) \<and>
     fst (overflow_step (pf_cpu_threshold_pct p) (pf_overflow_duration_s p) (timer_of (name @ ''_proc'') p) pct))"

text \<open>What a target sees of the state: another target's launch in the same iteration does not change it.\<close>

definition same_view :: "string \<Rightarrow> int \<Rightarrow> PerfDiagnoser \<times> world \<Rightarrow> PerfDiagnoser \<times> world \<Rightarrow> bool" where
  "same_view name pid a b \<longleftrightarrow> sample_of pid (fst b) = sample_of pid (fst a) \<and>
     timer_of (name @ ''_proc'') (fst b) = timer_of (name @ ''_proc'') (fst a) \<and>
     (name @ ''_proc'' \<in> set (pf_triggered_tags (fst b)) \<longleftrightarrow> name @ ''_proc'' \<in> set (pf_triggered_tags (fst a))) \<and>
     pf_cpu_threshold_pct (fst b) = pf_cpu_threshold_pct (fst a) \<and> pf_overflow_duration_s (fst b) = pf_overflow_duration_s (fst a) \<and>
     w_ls (snd b) = w_ls (snd a) \<and> w_proc (snd b) = w_proc (snd a)"

definition recording_of :: "string \<Rightarrow> int \<Rightarrow> string \<Rightarrow> double \<Rightarrow> PendingPerfEvent" where
  "recording_of dir now name pct = \<lparr>pp_pending = True, pp_type = ''perf'', pp_process_name = name,
     pp_file_path = perf_file dir name now, pp_timestamp = now, pp_cpu_percent = pct\<rparr>"

lemma due_same_view:
  "due hz ms p w (name, pid, pct) \<Longrightarrow> same_view name pid (p, w) (p', w') \<Longrightarrow> due hz ms p' w' (name, pid, pct)"
  by (simp add: due_def same_view_def)

lemma scan_target_due:
  assumes "due hz ms p w (name, pid, pct)" and "name @ ''_proc'' \<notin> set (pf_triggered_tags p)"
    and "os_forks (w_os w) = n # ns" and "0 < n"
  obtains p' w' where "scan_target hz ms name (p, w) = Inr (p', w')"
    and "runner_pid (pf_runner p') = int n" and "pf_pending_ev p' = recording_of (pf_output_dir p) (w_time w) name pct"
    and "pf_events p' = pf_events p" and "pf_output_dir p' = pf_output_dir p" and "w_time w' = w_time w"
    and "os_terms (w_os w') = os_terms (w_os w) @ [int n]" and "os_forks (w_os w') = ns"
    and "set (pf_triggered_tags p') = insert (name @ ''_proc'') (set (pf_triggered_tags p))"
    and "\<And>name' pid'. name' \<noteq> name \<Longrightarrow> pid' \<noteq> pid \<Longrightarrow> same_view name' pid' (p, w) (p', w')"
proof -
  from assms(1) obtain c smp where d: "perf_read_pid_by_name (w_ls w) (w_proc w) name = pid" "pid \<noteq> 0"
    "read_proc_cpu_pct (w_proc w) pid (smp_utime (sample_of pid p)) (smp_stime (sample_of pid p)) (smp_total_time (sample_of pid p)) ms = Inr c"
    "refresh_sample (w_proc w) pid (sample_of pid p) = Inr smp" "\<not> dlt c (Fin 0)"
    "pct = (if 0 < hz then ddiv (dmul c (Fin 1000)) (rnd (of_int hz)) else c)"
    "fst (overflow_step (pf_cpu_threshold_pct p) (pf_overflow_duration_s p) (timer_of (name @ ''_proc'') p) pct)"
    by (auto simp: due_def)
  let ?q = "p\<lparr>pf_prev_samples := AList.update pid smp (pf_prev_samples p)\<rparr>"
  obtain t where t: "overflow_step (pf_cpu_threshold_pct p) (pf_overflow_duration_s p) (timer_of (name @ ''_proc'') p) pct = (True, t)"
    using d(7) by (cases "overflow_step (pf_cpu_threshold_pct p) (pf_overflow_duration_s p) (timer_of (name @ ''_proc'') p) pct") simp
  define p1 w1 where "p1 = fst (launch_perf name pid pct ?q w)" and "w1 = snd (launch_perf name pid pct ?q w)"
  note l = launch_perf_started [OF assms(3,4), of name pid pct ?q, folded w1_def]
  have p1: "p1 = ?q\<lparr>pf_runner := \<lparr>runner_pid = int n, runner_output = []\<rparr>,
      pf_triggered_tags := List.insert (name @ ''_proc'') (pf_triggered_tags p),
      pf_pending_ev := recording_of (pf_output_dir p) (w_time w) name pct\<rparr>"
    using l(1) by (simp add: p1_def recording_of_def)
  have w1: "w_ls w1 = w_ls w" "w_proc w1 = w_proc w" "w_time w1 = w_time w"
    by (simp_all add: w1_def launch_perf_def Let_def split_beta)
  let ?p' = "p1\<lparr>pf_overflow_timers := AList.update (name @ ''_proc'') t (pf_overflow_timers p1)\<rparr>"
  have "timer_of (name @ ''_proc'') ?q = timer_of (name @ ''_proc'') p" by (simp add: timer_of_def)
  then have "judge_sample hz name pid c ?q w = (?p', w1)"
    using d(5,6) t by (simp add: judge_sample_def Let_def split_beta p1_def w1_def)
  then have scan: "scan_target hz ms name (p, w) = Inr (?p', w1)"
    using d(1-4) assms(2) by (simp add: scan_target_def Let_def sample_of_def)
  have view: "same_view name' pid' (p, w) (?p', w1)" if "name' \<noteq> name" "pid' \<noteq> pid" for name' pid'
    using that w1 by (simp add: same_view_def p1 sample_of_def timer_of_def update_conv')
  show thesis
    by (rule that [OF scan]) (use l(2,3) w1 view in \<open>simp_all add: p1\<close>)
qed

lemma scan_targets_due:
  assumes "list_all (due hz ms p w) ts" and "distinct (map fst ts)" and "distinct (map (fst \<circ> snd) ts)"
    and "list_all (\<lambda>t. fst t @ ''_proc'' \<notin> set (pf_triggered_tags p)) ts"
    and "os_forks (w_os w) = ns @ rest" and "length ns = length ts" and "list_all (\<lambda>n. 0 < n) ns"
  shows "\<exists>p' w'. scan_targets hz ms (map fst ts) (p, w) = Inr (p', w') \<and>
    os_terms (w_os w') = os_terms (w_os w) @ map int ns \<and> pf_events p' = pf_events p \<and>
    set (pf_triggered_tags p') = set (pf_triggered_tags p) \<union> set (map (\<lambda>t. fst t @ ''_proc'') ts) \<and>
    (ts \<noteq> [] \<longrightarrow> runner_pid (pf_runner p') = int (last ns) \<and>
       pf_pending_ev p' = recording_of (pf_output_dir p) (w_time w) (fst (last ts)) (snd (snd (last ts))))"
  using assms
proof (induction ts arbitrary: p w ns)
  case (Cons x ts)
  obtain name pid pct where x: "x = (name, pid, pct)" by (cases x)
  obtain n ns' where ns: "ns = n # ns'" "0 < n" using Cons.prems(6,7) by (cases ns) auto
  obtain p1 w1 where st: "scan_target hz ms name (p, w) = Inr (p1, w1)"
    and r: "runner_pid (pf_runner p1) = int n" "pf_pending_ev p1 = recording_of (pf_output_dir p) (w_time w) name pct"
    and k: "pf_events p1 = pf_events p" "pf_output_dir p1 = pf_output_dir p" "w_time w1 = w_time w"
    and o: "os_terms (w_os w1) = os_terms (w_os w) @ [int n]" "os_forks (w_os w1) = ns' @ rest"
    and tags: "set (pf_triggered_tags p1) = insert (name @ ''_proc'') (set (pf_triggered_tags p))"
    and view: "\<And>name' pid'. name' \<noteq> name \<Longrightarrow> pid' \<noteq> pid \<Longrightarrow> same_view name' pid' (p, w) (p1, w1)"
    using scan_target_due [of hz ms p w name pid pct n "ns' @ rest"] Cons.prems(1,4,5) ns x by auto
  have other: "t = (name', pid', pct') \<Longrightarrow> t \<in> set ts \<Longrightarrow> name' \<noteq> name \<and> pid' \<noteq> pid" for t name' pid' pct'
    using Cons.prems(2,3) x by force
  have "list_all (due hz ms p1 w1) ts"
    unfolding list_all_iff
  proof
    fix t assume t: "t \<in> set ts"
    obtain name' pid' pct' where t': "t = (name', pid', pct')" by (cases t)
    have "due hz ms p w (name', pid', pct')" using Cons.prems(1) t t' by (simp add: list_all_iff)
    with due_same_view view other [OF t' t] show "due hz ms p1 w1 t" unfolding t' by blast
  qed
  moreover have "list_all (\<lambda>t. fst t @ ''_proc'' \<notin> set (pf_triggered_tags p1)) ts"
    using Cons.prems(4) other tags by (fastforce simp: list_all_iff)
  ultimately obtain p2 w2 where 2: "scan_targets hz ms (map fst ts) (p1, w1) = Inr (p2, w2)"
    "os_terms (w_os w2) = os_terms (w_os w1) @ map int ns'" "pf_events p2 = pf_events p1"
    "set (pf_triggered_tags p2) = set (pf_triggered_tags p1) \<union> set (map (\<lambda>t. fst t @ ''_proc'') ts)"
    "ts \<noteq> [] \<longrightarrow> runner_pid (pf_runner p2) = int (last ns') \<and>
       pf_pending_ev p2 = recording_of (pf_output_dir p1) (w_time w1) (fst (last ts)) (snd (snd (last ts)))"
    using Cons.IH [of p1 w1 ns'] Cons.prems(2,3,6,7) ns o(2) by auto
  have nil: "ts = [] \<Longrightarrow> p2 = p1 \<and> ns' = []" using 2(1) Cons.prems(6) ns by simp
  show ?case
  proof (intro exI conjI)
    show "scan_targets hz ms (map fst (x # ts)) (p, w) = Inr (p2, w2)" using st 2(1) x by simp
    show "os_terms (w_os w2) = os_terms (w_os w) @ map int ns" using 2(2) o(1) ns by simp
    show "pf_events p2 = pf_events p" using 2(3) k by simp
    show "set (pf_triggered_tags p2) = set (pf_triggered_tags p) \<union> set (map (\<lambda>t. fst t @ ''_proc'') (x # ts))"
      using 2(4) tags x by auto
    show "x # ts \<noteq> [] \<longrightarrow> runner_pid (pf_runner p2) = int (last ns) \<and>
       pf_pending_ev p2 = recording_of (pf_output_dir p) (w_time w) (fst (last (x # ts))) (snd (snd (last (x # ts))))"
    proof (cases "ts = []")
      case True
      with nil r x ns show ?thesis by simp
    next
      case False
      then have "ns' \<noteq> []" using Cons.prems(6) ns by auto
      with False 2(5) k ns show ?thesis by simp
    qed
  qed
qed simp

lemma due_wall: "due hz ms (p\<lparr>pf_prev_wall := now\<rparr>) w = due hz ms p w"
  by (rule ext) (simp add: due_def sample_of_def timer_of_def split_beta)


text \<open>Two processes, each at 120 percent against a threshold of 50, in one iteration.\<close>

definition demo_two_world :: world where
  "demo_two_world = (demo_world [70, 71])\<lparr>w_ls := (\<lambda>d. Some [''42'', ''43'']),
     w_proc := (\<lambda>path. if path = ''/proc/42/comm'' then Some (''nginx'' @ [newline])
       else if path = ''/proc/43/comm'' then Some (''redis'' @ [newline])
       else if path = ''/proc/42/stat'' \<or> path = ''/proc/43/stat'' then Some (proc_stat_line (demo_stat 400) @ [newline]) else None)\<rparr>"

definition demo_two :: PerfDiagnoser where
  "demo_two = demo_perf\<lparr>pf_target_processes := [''nginx'', ''redis''], pf_prev_wall := 1000,
     pf_prev_samples := [(42, \<lparr>smp_utime = 100, smp_stime = 100, smp_total_time = 200\<rparr>),
       (43, \<lparr>smp_utime = 100, smp_stime = 100, smp_total_time = 200\<rparr>)]\<rparr>"

lemma demo_two_pids:
  "perf_read_pid_by_name (w_ls demo_two_world) (w_proc demo_two_world) ''nginx'' = 42"
  "perf_read_pid_by_name (w_ls demo_two_world) (w_proc demo_two_world) ''redis'' = 43"
  by code_simp+

lemma demo_two_times:
  "read_proc_cpu_pct (w_proc demo_two_world) 42 100 100 200 5000 = Inr (Fin 12)"
  "read_proc_cpu_pct (w_proc demo_two_world) 43 100 100 200 5000 = Inr (Fin 12)"
  "refresh_sample (w_proc demo_two_world) 42 \<lparr>smp_utime = 100, smp_stime = 100, smp_total_time = 200\<rparr> =
     Inr \<lparr>smp_utime = 400, smp_stime = 400, smp_total_time = 800\<rparr>"
  "refresh_sample (w_proc demo_two_world) 43 \<lparr>smp_utime = 100, smp_stime = 100, smp_total_time = 200\<rparr> =
     Inr \<lparr>smp_utime = 400, smp_stime = 400, smp_total_time = 800\<rparr>"
  by code_simp+

lemma demo_two_due:
  "due 100 5000 demo_two demo_two_world (''nginx'', 42, Fin 120)" "due 100 5000 demo_two demo_two_world (''redis'', 43, Fin 120)"
proof -
  have s: "sample_of 42 demo_two = \<lparr>smp_utime = 100, smp_stime = 100, smp_total_time = 200\<rparr>"
    "sample_of 43 demo_two = \<lparr>smp_utime = 100, smp_stime = 100, smp_total_time = 200\<rparr>" by code_simp+
  have pct: "ddiv (dmul (Fin 12) (Fin 1000)) (rnd (of_int 100)) = Fin 120" "\<not> dlt (Fin 12) (Fin 0)" by code_simp+
  have t: "fst (overflow_step (pf_cpu_threshold_pct demo_two) (pf_overflow_duration_s demo_two) (timer_of (''nginx'' @ ''_proc'') demo_two) (Fin 120))"
    "fst (overflow_step (pf_cpu_threshold_pct demo_two) (pf_overflow_duration_s demo_two) (timer_of (''redis'' @ ''_proc'') demo_two) (Fin 120))"
    by code_simp+
  show "due 100 5000 demo_two demo_two_world (''nginx'', 42, Fin 120)" "due 100 5000 demo_two demo_two_world (''redis'', 43, Fin 120)"
    using t by (simp_all add: due_def demo_two_pids s demo_two_times pct del: append.simps)
qed


end
