(* ===== verification/TcpFlow.thy ===== *)
theory TcpFlow
  imports Prelude
begin

text \<open>
  The kernel-side programs (\<open>src/worker/src/ebpf/tcp_flow.bpf.c\<close>, \<open>process_trace.bpf.c\<close>) and the
  event structs they share with the collector (\<open>observe_events.h\<close>). A program runs to completion
  on one probe; its inputs are the current task (process number and command name), the clock
  and the probe's arguments. A BPF hash map is an association list bounded by its number of
  entries, and the perf ring is the list of events output so far.
\<close>

unbundle bit_operations_syntax

section \<open>Shared event structs\<close>

text \<open>Character arrays are the bytes up to the array's length, unused ones zero.\<close>

record process_event =
  e_pid :: u32
  e_ppid :: u32
  e_comm :: string
  e_filename :: string
  e_event_type :: u32
  e_ts_ns :: u64

record flow_event =
  f_pid :: u32
  f_comm :: string
  f_ppid_comm :: string
  f_exe :: string
  f_saddr :: u32
  f_daddr :: u32
  f_sport :: u16
  f_dport :: u16
  f_family :: u16
  f_protocol :: u8
  f_state :: u8
  f_bytes_sent :: u64
  f_bytes_recv :: u64
  f_connect_latency_ns :: u64
  f_start_ns :: u64
  f_last_ns :: u64

section \<open>BPF maps\<close>

definition map_entries :: int where
  "map_entries = 65536"

definition bpf_update_any :: "'k \<Rightarrow> 'v \<Rightarrow> ('k \<times> 'v) list \<Rightarrow> ('k \<times> 'v) list" where
  "bpf_update_any k v m =
     (if map_of m k = None \<and> map_entries \<le> int (length m) then m else AList.update k v m)"

definition bpf_update_noexist :: "'k \<Rightarrow> 'v \<Rightarrow> ('k \<times> 'v) list \<Rightarrow> ('k \<times> 'v) list" where
  "bpf_update_noexist k v m =
     (if map_of m k \<noteq> None \<or> map_entries \<le> int (length m) then m else AList.update k v m)"

section \<open>State of tcp\_flow\<close>

record flow_key =
  k_pid :: u32
  k_saddr :: u32
  k_daddr :: u32
  k_sport :: u16
  k_dport :: u16
  k_family :: u16
  k_protocol :: u8

record flow_val =
  v_bytes_sent :: u64
  v_bytes_recv :: u64
  v_start_ns :: u64
  v_last_ns :: u64
  v_state :: u8

definition flow_val_zero :: flow_val where
  "flow_val_zero = \<lparr>v_bytes_sent = 0, v_bytes_recv = 0, v_start_ns = 0, v_last_ns = 0, v_state = 0\<rparr>"

record flow_state =
  flow_map :: "(flow_key \<times> flow_val) list"
  connect_start :: "(u32 \<times> u64) list"
  flow_out :: "flow_event list"

definition flow_state_new :: flow_state where
  "flow_state_new = \<lparr>flow_map = [], connect_start = [], flow_out = []\<rparr>"

text \<open>The fields of \<open>struct sock\<close> the program reads; the destination port is in network order.\<close>

record sock =
  skc_rcv_saddr :: u32
  skc_daddr :: u32
  skc_num :: u16
  skc_dport :: u16
  skc_family :: u16

text \<open>The current task and two successive readings of \<open>bpf_ktime_get_ns\<close>.\<close>

record task =
  t_tgid :: u32
  t_comm :: string
  t_ns1 :: u64
  t_ns2 :: u64

definition bpf_ntohs :: "u16 \<Rightarrow> u16" where
  "bpf_ntohs w = push_bit 8 w OR drop_bit 8 w"

definition fill_flow_key :: "task \<Rightarrow> sock \<Rightarrow> flow_key" where
  "fill_flow_key t sk = \<lparr>k_pid = t_tgid t, k_saddr = skc_rcv_saddr sk, k_daddr = skc_daddr sk,
     k_sport = skc_num sk, k_dport = bpf_ntohs (skc_dport sk), k_family = skc_family sk, k_protocol = 6\<rparr>"

definition emit_flow :: "task \<Rightarrow> flow_key \<Rightarrow> flow_val \<Rightarrow> flow_state \<Rightarrow> flow_state" where
  "emit_flow t key val s =
     (let latency = (case map_of (connect_start s) (k_pid key) of None \<Rightarrow> 0 | Some start \<Rightarrow> t_ns1 t - start);
          ev = \<lparr>f_pid = k_pid key, f_comm = t_comm t, f_ppid_comm = [], f_exe = [],
                f_saddr = k_saddr key, f_daddr = k_daddr key, f_sport = k_sport key, f_dport = k_dport key,
                f_family = k_family key, f_protocol = k_protocol key, f_state = v_state val,
                f_bytes_sent = v_bytes_sent val, f_bytes_recv = v_bytes_recv val,
                f_connect_latency_ns = latency, f_start_ns = v_start_ns val, f_last_ns = v_last_ns val\<rparr>
      in s\<lparr>flow_out := flow_out s @ [ev]\<rparr>)"

section \<open>The probes\<close>

text \<open>A value is reached through a pointer into the map: writing it updates the entry.\<close>

definition tcp_sendmsg :: "task \<Rightarrow> sock \<Rightarrow> u64 \<Rightarrow> flow_state \<Rightarrow> flow_state" where
  "tcp_sendmsg t sk nbytes s =
     (let key = fill_flow_key t sk
      in if k_family key \<noteq> 2 then s
         else let s = (case map_of (flow_map s) key of
                         Some _ \<Rightarrow> s
                       | None \<Rightarrow> s\<lparr>flow_map := bpf_update_noexist key (flow_val_zero\<lparr>v_start_ns := t_ns1 t\<rparr>) (flow_map s)\<rparr>)
              in case map_of (flow_map s) key of
                   None \<Rightarrow> s
                 | Some val \<Rightarrow> s\<lparr>flow_map := AList.update key
                     (val\<lparr>v_bytes_sent := v_bytes_sent val + nbytes, v_last_ns := t_ns2 t\<rparr>) (flow_map s)\<rparr>)"

definition tcp_cleanup_rbuf :: "task \<Rightarrow> sock \<Rightarrow> i32 \<Rightarrow> flow_state \<Rightarrow> flow_state" where
  "tcp_cleanup_rbuf t sk copied s =
     (let key = fill_flow_key t sk
      in if k_family key \<noteq> 2 then s
         else case map_of (flow_map s) key of
                None \<Rightarrow> s
              | Some val \<Rightarrow>
                  let val = (if 0 < sint copied then val\<lparr>v_bytes_recv := v_bytes_recv val + scast copied\<rparr> else val)
                  in s\<lparr>flow_map := AList.update key (val\<lparr>v_last_ns := t_ns1 t\<rparr>) (flow_map s)\<rparr>)"

definition tcp_set_state :: "task \<Rightarrow> sock \<Rightarrow> i32 \<Rightarrow> flow_state \<Rightarrow> flow_state" where
  "tcp_set_state t sk state s =
     (let key = fill_flow_key t sk
      in if k_family key \<noteq> 2 then s
         else case map_of (flow_map s) key of
                None \<Rightarrow> s
              | Some val \<Rightarrow>
                  let s = s\<lparr>flow_map := AList.update key (val\<lparr>v_state := ucast state, v_last_ns := t_ns1 t\<rparr>) (flow_map s)\<rparr>
                  in if state = 2 then s\<lparr>connect_start := bpf_update_any (k_pid key) (t_ns2 t) (connect_start s)\<rparr>
                     else s)"

definition tcp_done :: "task \<Rightarrow> sock \<Rightarrow> flow_state \<Rightarrow> flow_state" where
  "tcp_done t sk s =
     (let key = fill_flow_key t sk
      in if k_family key \<noteq> 2 then s
         else case map_of (flow_map s) key of
                None \<Rightarrow> s
              | Some val \<Rightarrow>
                  let s = emit_flow t key val s in s\<lparr>flow_map := AList.delete key (flow_map s)\<rparr>)"

datatype probe = SendMsg u64 | CleanupRbuf i32 | SetState i32 | TcpDone

definition run_probe :: "task \<times> sock \<times> probe \<Rightarrow> flow_state \<Rightarrow> flow_state" where
  "run_probe e s = (case e of (t, sk, p) \<Rightarrow>
     (case p of
        SendMsg nbytes \<Rightarrow> tcp_sendmsg t sk nbytes s
      | CleanupRbuf copied \<Rightarrow> tcp_cleanup_rbuf t sk copied s
      | SetState state \<Rightarrow> tcp_set_state t sk state s
      | TcpDone \<Rightarrow> tcp_done t sk s))"

definition run_probes :: "(task \<times> sock \<times> probe) list \<Rightarrow> flow_state" where
  "run_probes es = fold run_probe es flow_state_new"

section \<open>process\_trace\<close>

record proc_info =
  i_ppid :: u32
  i_comm :: string
  i_filename :: string

record trace_state =
  processes :: "(u32 \<times> proc_info) list"
  process_out :: "process_event list"

definition trace_exec :: "task \<Rightarrow> u32 \<Rightarrow> string \<Rightarrow> trace_state \<Rightarrow> trace_state" where
  "trace_exec t real_parent_tgid filename s =
     (let ev = \<lparr>e_pid = t_tgid t, e_ppid = real_parent_tgid, e_comm = t_comm t, e_filename = take 127 filename,
                e_event_type = 0, e_ts_ns = t_ns1 t\<rparr>;
          info = \<lparr>i_ppid = real_parent_tgid, i_comm = e_comm ev, i_filename = e_filename ev\<rparr>
      in s\<lparr>processes := bpf_update_any (t_tgid t) info (processes s), process_out := process_out s @ [ev]\<rparr>)"

definition trace_exit :: "task \<Rightarrow> trace_state \<Rightarrow> trace_state" where
  "trace_exit t s =
     (let ev = \<lparr>e_pid = t_tgid t, e_ppid = 0, e_comm = t_comm t, e_filename = [], e_event_type = 1, e_ts_ns = t_ns1 t\<rparr>
      in s\<lparr>processes := AList.delete (t_tgid t) (processes s), process_out := process_out s @ [ev]\<rparr>)"

section \<open>The history of a flow\<close>

definition probe_key :: "task \<times> sock \<times> probe \<Rightarrow> flow_key" where
  "probe_key e = (case e of (t, sk, p) \<Rightarrow> fill_flow_key t sk)"

definition probe_of :: "task \<times> sock \<times> probe \<Rightarrow> probe" where
  "probe_of e = snd (snd e)"

text \<open>The probes of a flow since it was last closed.\<close>

definition since_done :: "flow_key \<Rightarrow> (task \<times> sock \<times> probe) list \<Rightarrow> probe list" where
  "since_done k es = rev (takeWhile (\<lambda>p. p \<noteq> TcpDone) (rev (map probe_of (filter (\<lambda>e. probe_key e = k) es))))"

fun is_send :: "probe \<Rightarrow> bool" where
  "is_send (SendMsg n) = True"
| "is_send _ = False"

fun sent_bytes :: "probe \<Rightarrow> u64" where
  "sent_bytes (SendMsg n) = n"
| "sent_bytes _ = 0"

fun recv_bytes :: "probe \<Rightarrow> u64" where
  "recv_bytes (CleanupRbuf c) = (if 0 < sint c then scast c else 0)"
| "recv_bytes _ = 0"

text \<open>Bytes sent, and bytes received from the first send on.\<close>

definition total_sent :: "probe list \<Rightarrow> u64" where
  "total_sent ps = sum_list (map sent_bytes ps)"

definition total_recv :: "probe list \<Rightarrow> u64" where
  "total_recv ps = sum_list (map recv_bytes (dropWhile (\<lambda>p. \<not> is_send p) ps))"

lemma since_done_snoc:
  "since_done k (es @ [e]) =
     (if probe_key e \<noteq> k then since_done k es
      else if probe_of e = TcpDone then [] else since_done k es @ [probe_of e])"
  by (simp add: since_done_def)

lemma since_done_Nil [simp]: "since_done k [] = []"
  by (simp add: since_done_def)

lemma total_sent_snoc: "total_sent (ps @ [p]) = total_sent ps + sent_bytes p"
  by (simp add: total_sent_def)

lemma total_recv_snoc:
  "total_recv (ps @ [p]) = (if list_ex is_send ps then total_recv ps + recv_bytes p else 0)"
proof (cases "list_ex is_send ps")
  case True
  then have "dropWhile (\<lambda>p. \<not> is_send p) (ps @ [p]) = dropWhile (\<lambda>p. \<not> is_send p) ps @ [p]"
    by (induction ps) auto
  with True show ?thesis by (simp add: total_recv_def)
next
  case False
  then have "dropWhile (\<lambda>p. \<not> is_send p) (ps @ [p]) = (if is_send p then [p] else [])"
    by (induction ps) auto
  with False show ?thesis by (cases p) (simp_all add: total_recv_def)
qed

section \<open>What the flow map holds\<close>

text \<open>An entry exists only for a flow that has sent.\<close>

definition entry_sent :: "probe list \<Rightarrow> flow_val option \<Rightarrow> bool" where
  "entry_sent ps v \<longleftrightarrow> (v \<noteq> None \<longrightarrow> list_ex is_send ps)"

text \<open>With room in the map it exists exactly then, and counts exactly the flow's bytes.\<close>

definition entry_exact :: "probe list \<Rightarrow> flow_val option \<Rightarrow> bool" where
  "entry_exact ps v = (case v of None \<Rightarrow> \<not> list_ex is_send ps
     | Some x \<Rightarrow> list_ex is_send ps \<and> v_bytes_sent x = total_sent ps \<and> v_bytes_recv x = total_recv ps)"

lemma noexist_lookup:
  "map_of (bpf_update_noexist k v m) k' =
     (if k' = k \<and> map_of m k = None \<and> int (length m) < map_entries then Some v else map_of m k')"
  by (auto simp: bpf_update_noexist_def update_conv')

lemma probe_other:
  assumes "probe_key e \<noteq> k"
  shows "map_of (flow_map (run_probe e s)) k = map_of (flow_map s) k"
proof -
  obtain t sk p where e: "e = (t, sk, p)" by (cases e)
  with assms have "fill_flow_key t sk \<noteq> k" by (simp add: probe_key_def)
  then show ?thesis
    unfolding e run_probe_def
    by (cases p) (auto simp: tcp_sendmsg_def tcp_cleanup_rbuf_def tcp_set_state_def tcp_done_def emit_flow_def Let_def
        update_conv' delete_conv' noexist_lookup split: option.splits)
qed

lemma probe_same:
  assumes "probe_key e = k" and "k_family k = 2"
  shows "map_of (flow_map (run_probe e s)) k =
    (case probe_of e of
       SendMsg n \<Rightarrow>
         (case map_of (flow_map s) k of
            Some v \<Rightarrow> Some (v\<lparr>v_bytes_sent := v_bytes_sent v + n, v_last_ns := t_ns2 (fst e)\<rparr>)
          | None \<Rightarrow> if int (length (flow_map s)) < map_entries
                   then Some (flow_val_zero\<lparr>v_start_ns := t_ns1 (fst e), v_bytes_sent := n, v_last_ns := t_ns2 (fst e)\<rparr>) else None)
     | CleanupRbuf c \<Rightarrow> map_option (\<lambda>v. v\<lparr>v_bytes_recv := v_bytes_recv v + recv_bytes (CleanupRbuf c), v_last_ns := t_ns1 (fst e)\<rparr>) (map_of (flow_map s) k)
     | SetState st \<Rightarrow> map_option (\<lambda>v. v\<lparr>v_state := ucast st, v_last_ns := t_ns1 (fst e)\<rparr>) (map_of (flow_map s) k)
     | TcpDone \<Rightarrow> None)"
proof -
  obtain t sk p where e: "e = (t, sk, p)" by (cases e)
  with assms have "fill_flow_key t sk = k" by (simp add: probe_key_def)
  then show ?thesis
    using assms(2) unfolding e run_probe_def probe_of_def
    by (cases p) (auto simp: tcp_sendmsg_def tcp_cleanup_rbuf_def tcp_set_state_def tcp_done_def emit_flow_def Let_def
        update_conv' delete_conv' noexist_lookup flow_val_zero_def split: option.splits)
qed

lemma total_none: "\<not> list_ex is_send ps \<Longrightarrow> total_sent ps = 0"
proof (induction ps)
  case (Cons p ps)
  then show ?case by (cases p) (simp_all add: total_sent_def)
qed (simp add: total_sent_def)

lemma entry_sent_step:
  assumes "k_family k = 2" and "entry_sent (since_done k es) (map_of (flow_map s) k)"
  shows "entry_sent (since_done k (es @ [e])) (map_of (flow_map (run_probe e s)) k)"
proof (cases "probe_key e = k")
  case False
  with assms(2) show ?thesis by (simp add: since_done_snoc probe_other)
next
  case True
  show ?thesis
    using assms(2) True unfolding probe_same [OF True assms(1)] since_done_snoc
    by (cases "probe_of e") (auto simp: entry_sent_def)
qed

lemma entry_exact_step:
  assumes "k_family k = 2" and "entry_exact (since_done k es) (map_of (flow_map s) k)"
    and "map_of (flow_map s) k = None \<longrightarrow> probe_key e = k \<longrightarrow> int (length (flow_map s)) < map_entries"
  shows "entry_exact (since_done k (es @ [e])) (map_of (flow_map (run_probe e s)) k)"
proof (cases "probe_key e = k")
  case False
  with assms(2) show ?thesis by (simp add: since_done_snoc probe_other)
next
  case True
  show ?thesis
    using assms(2,3) True unfolding probe_same [OF True assms(1)] since_done_snoc
    by (cases "probe_of e"; cases "map_of (flow_map s) k")
       (auto simp: entry_exact_def total_sent_snoc total_recv_snoc flow_val_zero_def total_none)
qed

lemma run_probes_snoc: "run_probes (es @ [e]) = run_probe e (run_probes es)"
  by (simp add: run_probes_def)

lemma run_probes_Nil [simp]: "run_probes [] = flow_state_new"
  by (simp add: run_probes_def)

lemma run_probes_sent:
  assumes "k_family k = 2"
  shows "entry_sent (since_done k es) (map_of (flow_map (run_probes es)) k)"
proof (induction es rule: rev_induct)
  case Nil
  show ?case by (simp add: flow_state_new_def entry_sent_def)
next
  case (snoc e es)
  then show ?case unfolding run_probes_snoc by (rule entry_sent_step [OF assms])
qed

text \<open>The keys of the map are keys of the trace, each once.\<close>

definition flow_map_ok :: "flow_key set \<Rightarrow> flow_state \<Rightarrow> bool" where
  "flow_map_ok ks s \<longleftrightarrow> distinct (map fst (flow_map s)) \<and> fst ` set (flow_map s) \<subseteq> ks"

lemma flow_map_ok_update: "flow_map_ok ks s \<Longrightarrow> k \<in> ks \<Longrightarrow> flow_map_ok ks (s\<lparr>flow_map := AList.update k v (flow_map s)\<rparr>)"
  using dom_update [of k v "flow_map s"] by (auto simp: flow_map_ok_def distinct_update dom_map_of_conv_image_fst)

lemma flow_map_ok_other [simp]:
  "flow_map_ok ks (s\<lparr>connect_start := c\<rparr>) = flow_map_ok ks s" "flow_map_ok ks (s\<lparr>flow_out := f\<rparr>) = flow_map_ok ks s"
  by (simp_all add: flow_map_ok_def)

lemma in_set_deleteD: "x \<in> set (AList.delete k m) \<Longrightarrow> x \<in> set m"
  by (simp add: AList.delete_eq)

lemma run_probe_map_ok:
  assumes "flow_map_ok ks s" and "probe_key e \<in> ks"
  shows "flow_map_ok ks (run_probe e s)"
proof -
  obtain t sk p where e: "e = (t, sk, p)" by (cases e)
  let ?k = "fill_flow_key t sk"
  have k: "?k \<in> ks" using assms(2) e by (simp add: probe_key_def)
  have del: "flow_map_ok ks (s\<lparr>flow_map := AList.delete ?k (flow_map s)\<rparr>)"
    using assms(1) by (auto simp: flow_map_ok_def distinct_delete dest!: in_set_deleteD)
  have ne: "flow_map_ok ks (s\<lparr>flow_map := bpf_update_noexist ?k v (flow_map s)\<rparr>)" for v
    using assms(1) flow_map_ok_update [OF assms(1) k, of v] by (auto simp: bpf_update_noexist_def)
  have other: "flow_map_ok ks s'" if "flow_map_ok ks s''" "flow_map s' = flow_map s''" for s' s''
    using that by (simp add: flow_map_ok_def)
  show ?thesis
  proof (cases p)
    case (SendMsg n)
    then show ?thesis
      using assms(1) k ne flow_map_ok_update [OF ne k] flow_map_ok_update [OF assms(1) k]
      by (auto simp: e run_probe_def tcp_sendmsg_def Let_def split: option.splits)
  next
    case (CleanupRbuf c)
    then show ?thesis
      using assms(1) flow_map_ok_update [OF assms(1) k]
      by (auto simp: e run_probe_def tcp_cleanup_rbuf_def Let_def split: option.splits)
  next
    case (SetState st)
    then show ?thesis
      using assms(1) flow_map_ok_update [OF assms(1) k]
      by (auto simp: e run_probe_def tcp_set_state_def Let_def split: option.splits intro: other)
  next
    case TcpDone
    then show ?thesis
      using assms(1) del by (auto simp: e run_probe_def tcp_done_def emit_flow_def Let_def split: option.splits intro: other)
  qed
qed

lemma run_probes_map_ok: "set (map probe_key es) \<subseteq> ks \<Longrightarrow> flow_map_ok ks (run_probes es)"
proof (induction es rule: rev_induct)
  case Nil
  show ?case by (simp add: flow_state_new_def flow_map_ok_def)
next
  case (snoc e es)
  then show ?case unfolding run_probes_snoc by (intro run_probe_map_ok) auto
qed

lemma map_has_room:
  assumes "int (card (set (map probe_key (es @ [e])))) \<le> map_entries" and "map_of (flow_map (run_probes es)) (probe_key e) = None"
  shows "int (length (flow_map (run_probes es))) < map_entries"
proof -
  let ?m = "flow_map (run_probes es)" and ?ks = "set (map probe_key (es @ [e]))"
  have ok: "flow_map_ok (set (map probe_key es)) (run_probes es)" by (rule run_probes_map_ok) simp
  then have "length ?m = card (fst ` set ?m)" by (metis distinct_card flow_map_ok_def length_map set_map)
  also have "\<dots> < card ?ks"
  proof (rule psubset_card_mono)
    have "probe_key e \<notin> fst ` set ?m" using assms(2) by (simp add: map_of_eq_None_iff)
    with ok show "fst ` set ?m \<subset> ?ks" by (auto simp: flow_map_ok_def)
  qed simp
  finally show ?thesis using assms(1) by simp
qed

lemma run_probes_exact:
  assumes "k_family k = 2" and "int (card (set (map probe_key es))) \<le> map_entries"
  shows "entry_exact (since_done k es) (map_of (flow_map (run_probes es)) k)"
  using assms(2)
proof (induction es rule: rev_induct)
  case Nil
  show ?case by (simp add: flow_state_new_def entry_exact_def)
next
  case (snoc e es)
  have "card (set (map probe_key es)) \<le> card (set (map probe_key (es @ [e])))" by (intro card_mono) auto
  with snoc have "entry_exact (since_done k es) (map_of (flow_map (run_probes es)) k)" by simp
  with snoc.prems show ?case
    unfolding run_probes_snoc by (intro entry_exact_step assms(1)) (auto intro: map_has_room)
qed

text \<open>
  What the probes count of a closed IPv4 connection: the process, the bytes sent since the key was
  last closed and those received from its first send on. This is less than the traffic: bytes
  received before the first send are left out, and so is a connection on which nothing was sent,
  since only \<open>tcp_sendmsg\<close> creates the flow.
\<close>

definition counted_by :: "(task \<times> sock \<times> probe) list \<Rightarrow> task \<times> sock \<times> probe \<Rightarrow> (u32 \<times> u64 \<times> u64) list" where
  "counted_by es e =
     (let ps = since_done (probe_key e) es
      in if probe_of e = TcpDone \<and> k_family (probe_key e) = 2 \<and> list_ex is_send ps
         then [(k_pid (probe_key e), total_sent ps, total_recv ps)] else [])"

fun counted_flows :: "(task \<times> sock \<times> probe) list \<Rightarrow> (task \<times> sock \<times> probe) list \<Rightarrow> (u32 \<times> u64 \<times> u64) list" where
  "counted_flows past [] = []"
| "counted_flows past (e # es) = counted_by past e @ counted_flows (past @ [e]) es"

abbreviation flow_bytes :: "flow_event \<Rightarrow> u32 \<times> u64 \<times> u64" where
  "flow_bytes ev \<equiv> (f_pid ev, f_bytes_sent ev, f_bytes_recv ev)"

lemma counted_flows_snoc: "counted_flows past (es @ [e]) = counted_flows past es @ counted_by (past @ es) e"
  by (induction past es rule: counted_flows.induct) simp_all

lemma flow_out_step:
  assumes "int (card (set (map probe_key es))) \<le> map_entries"
  shows "map flow_bytes (flow_out (run_probes (es @ [e]))) = map flow_bytes (flow_out (run_probes es)) @ counted_by es e"
proof -
  obtain t sk p where e: "e = (t, sk, p)" by (cases e)
  let ?k = "fill_flow_key t sk"
  have "entry_exact (since_done ?k es) (map_of (flow_map (run_probes es)) ?k)" if "k_family ?k = 2"
    using that assms by (intro run_probes_exact)
  then show ?thesis
    unfolding run_probes_snoc e
    by (cases p) (auto simp: run_probe_def tcp_sendmsg_def tcp_cleanup_rbuf_def tcp_set_state_def tcp_done_def emit_flow_def
        counted_by_def probe_key_def probe_of_def Let_def entry_exact_def split: option.splits)
qed

lemma flow_out_counted:
  assumes "int (card (set (map probe_key es))) \<le> map_entries"
  shows "map flow_bytes (flow_out (run_probes es)) = counted_flows [] es"
  using assms
proof (induction es rule: rev_induct)
  case Nil
  show ?case by (simp add: flow_state_new_def)
next
  case (snoc e es)
  have "card (set (map probe_key es)) \<le> card (set (map probe_key (es @ [e])))" by (intro card_mono) auto
  with snoc have "int (card (set (map probe_key es))) \<le> map_entries" by simp
  with snoc.IH flow_out_step [OF this, of e] show ?case by (simp add: counted_flows_snoc)
qed

text \<open>
  C38: When a TCP connection is closed, the event output for it carries exactly the bytes sent on it
  since it was last closed, modulo \<open>2 ^ 64\<close>, and the bytes received from its first send on; a
  connection on which nothing was sent produces no event. This holds for every interleaving of probes
  of other connections, as long as there are no more of them than map entries.
\<close>

theorem flow_event_bytes:
  assumes "int (card (set (map probe_key es))) \<le> map_entries" and "k_family (fill_flow_key t sk) = 2"
  shows "map (\<lambda>ev. (f_pid ev, f_bytes_sent ev, f_bytes_recv ev)) (flow_out (run_probes (es @ [(t, sk, TcpDone)]))) =
    map (\<lambda>ev. (f_pid ev, f_bytes_sent ev, f_bytes_recv ev)) (flow_out (run_probes es)) @
    (let ps = since_done (fill_flow_key t sk) es
     in if list_ex is_send ps then [(t_tgid t, total_sent ps, total_recv ps)] else [])"
proof -
  have "k_pid (fill_flow_key t sk) = t_tgid t" by (simp add: fill_flow_key_def)
  with flow_out_step [OF assms(1), of "(t, sk, TcpDone)"] assms(2) show ?thesis
    by (simp add: counted_by_def probe_key_def probe_of_def Let_def)
qed

definition demo_task :: "u32 \<Rightarrow> u64 \<Rightarrow> task" where
  "demo_task pid ns = \<lparr>t_tgid = pid, t_comm = ''curl'', t_ns1 = ns, t_ns2 = ns + 1\<rparr>"

definition demo_sock :: "u16 \<Rightarrow> sock" where
  "demo_sock port = \<lparr>skc_rcv_saddr = 1, skc_daddr = 2, skc_num = port, skc_dport = 0x5000, skc_family = 2\<rparr>"

theorem flow_event_bytes_witness:
  "map (\<lambda>ev. (f_pid ev, f_bytes_sent ev, f_bytes_recv ev))
     (flow_out (run_probes ([(demo_task 7 1, demo_sock 99, CleanupRbuf 40), (demo_task 7 2, demo_sock 99, SendMsg 10),
       (demo_task 7 3, demo_sock 99, CleanupRbuf 5)] @ [(demo_task 7 4, demo_sock 99, TcpDone)]))) = [(7, 10, 5)]"
proof -
  have "int (card {k, k, k}) \<le> map_entries" for k :: flow_key by (simp add: map_entries_def)
  then show ?thesis
    by (subst flow_event_bytes)
       (simp_all add: fill_flow_key_def demo_task_def demo_sock_def since_done_def probe_of_def probe_key_def Let_def
         total_sent_def total_recv_def run_probes_def run_probe_def tcp_sendmsg_def tcp_cleanup_rbuf_def flow_state_new_def
         bpf_update_noexist_def map_entries_def)
qed

section \<open>Connect latency\<close>

text \<open>
  The kernel enters \<open>SYN_SENT\<close> before anything can be sent on a connection. A trace where every
  such transition happens before the first send on the flow since it was last closed:
\<close>

definition connects_before_sending :: "(task \<times> sock \<times> probe) list \<Rightarrow> bool" where
  "connects_before_sending es \<longleftrightarrow> (\<forall>n < length es. probe_of (es ! n) = SetState 2 \<longrightarrow>
     \<not> list_ex is_send (since_done (probe_key (es ! n)) (take n es)))"

lemma connects_before_snoc:
  "connects_before_sending (es @ [e]) \<longleftrightarrow> connects_before_sending es \<and>
     (probe_of e = SetState 2 \<longrightarrow> \<not> list_ex is_send (since_done (probe_key e) es))"
  by (auto simp: connects_before_sending_def nth_append less_Suc_eq)

lemma no_connect_start_step:
  assumes "connect_start s = []" and "list_all (\<lambda>ev. f_connect_latency_ns ev = 0) (flow_out s)"
    and "probe_of e = SetState 2 \<longrightarrow> k_family (probe_key e) = 2 \<longrightarrow> map_of (flow_map s) (probe_key e) = None"
  shows "connect_start (run_probe e s) = [] \<and> list_all (\<lambda>ev. f_connect_latency_ns ev = 0) (flow_out (run_probe e s))"
proof -
  obtain t sk p where e: "e = (t, sk, p)" by (cases e)
  show ?thesis
    using assms unfolding e
    by (cases p) (auto simp: run_probe_def probe_of_def probe_key_def tcp_sendmsg_def tcp_cleanup_rbuf_def tcp_set_state_def
        tcp_done_def emit_flow_def Let_def split: option.splits)
qed

text \<open>
  C39: The connect latency is never measured: on every trace in which connections enter \<open>SYN_SENT\<close>
  before sending, as TCP requires, every flow event has latency 0, because \<open>tcp_set_state\<close> ignores a
  flow that has no map entry yet and only \<open>tcp_sendmsg\<close> creates one.
\<close>

theorem connect_latency_never_measured:
  assumes "connects_before_sending es" and "ev \<in> set (flow_out (run_probes es))"
  shows "f_connect_latency_ns ev = 0"
proof -
  from assms(1) have "connect_start (run_probes es) = [] \<and>
      list_all (\<lambda>ev. f_connect_latency_ns ev = 0) (flow_out (run_probes es))"
  proof (induction es rule: rev_induct)
    case Nil
    show ?case by (simp add: flow_state_new_def)
  next
    case (snoc e es)
    then have IH: "connect_start (run_probes es) = []" "list_all (\<lambda>ev. f_connect_latency_ns ev = 0) (flow_out (run_probes es))"
      and no: "probe_of e = SetState 2 \<longrightarrow> \<not> list_ex is_send (since_done (probe_key e) es)"
      by (auto simp: connects_before_snoc)
    have "map_of (flow_map (run_probes es)) (probe_key e) = None" if "probe_of e = SetState 2" "k_family (probe_key e) = 2"
      using no that run_probes_sent [OF that(2), of es] by (auto simp: entry_sent_def)
    with no_connect_start_step [OF IH, of e] show ?case unfolding run_probes_snoc by blast
  qed
  with assms(2) show ?thesis by (simp add: list_all_iff)
qed

definition demo_trace :: "(task \<times> sock \<times> probe) list" where
  "demo_trace = [(demo_task 7 1, demo_sock 99, SetState 2), (demo_task 7 2, demo_sock 99, SetState 1),
     (demo_task 7 3, demo_sock 99, SendMsg 10), (demo_task 7 9, demo_sock 99, TcpDone)]"

theorem connect_latency_never_measured_witness:
  "\<exists>ev. flow_out (run_probes demo_trace) = [ev] \<and> f_bytes_sent ev = 10 \<and> f_connect_latency_ns ev = 0"
proof -
  have "connects_before_sending demo_trace"
    by (simp add: connects_before_sending_def demo_trace_def All_less_Suc probe_of_def since_done_def)
  moreover have "map f_bytes_sent (flow_out (run_probes demo_trace)) = [10]" by code_simp
  then obtain ev where "flow_out (run_probes demo_trace) = [ev]" "f_bytes_sent ev = 10" by auto
  ultimately show ?thesis using connect_latency_never_measured [of demo_trace ev] by simp
qed

end
