(* ===== verification/ObserveCollector.thy ===== *)
theory ObserveCollector
  imports TcpFlow MonitorInterface
begin

text \<open>
  The user-space side of the observe layer (\<open>src/worker/include/observe/observe_collector.h\<close>,
  \<open>observe_collector.cpp\<close>, built with \<open>ENABLE_EBPF\<close>). The libbpf calls of \<open>Init\<close> are given by
  their outcomes; a poll of a perf buffer delivers a list of samples, each with its size, to the
  callback, in order.
\<close>

section \<open>Events\<close>

record CppProcessEvent =
  cpe_comm :: string
  cpe_pid :: u32
  cpe_ppid :: u32
  cpe_filename :: string
  cpe_event :: string
  cpe_ts_ns :: i64

record CppFlowEvent =
  cfe_pid :: u32
  cfe_comm :: string
  cfe_ppid_comm :: string
  cfe_exe :: string
  cfe_src_ip :: string
  cfe_dst_ip :: string
  cfe_src_port :: u32
  cfe_dst_port :: u32
  cfe_bytes_sent :: u64
  cfe_bytes_recv :: u64
  cfe_connect_latency_ns :: u64
  cfe_state :: string
  cfe_start_ns :: u64
  cfe_last_ns :: u64

definition bpf_state_str :: "u8 \<Rightarrow> string" where
  "bpf_state_str state =
     (if state = 1 then ''ESTABLISHED'' else if state = 2 then ''SYN_SENT'' else if state = 3 then ''SYN_RECV''
      else if state = 4 then ''FIN_WAIT1'' else if state = 5 then ''FIN_WAIT2'' else if state = 6 then ''TIME_WAIT''
      else if state = 7 then ''CLOSE'' else if state = 8 then ''CLOSE_WAIT'' else if state = 9 then ''LAST_ACK''
      else if state = 10 then ''LISTEN'' else if state = 11 then ''CLOSING'' else ''UNKNOWN'')"

text \<open>\<open>std::string(buf, strnlen(buf, n))\<close>\<close>

definition c_string :: "nat \<Rightarrow> string \<Rightarrow> string" where
  "c_string n buf = takeWhile (\<lambda>c. c \<noteq> CHR 0x00) (take n buf)"

text \<open>\<open>inet_ntop(AF_INET, ...)\<close> of a word in network order, on a little-endian host.\<close>

definition inet_ntop4 :: "u32 \<Rightarrow> string" where
  "inet_ntop4 w = join_with ''.'' (map (\<lambda>i. show_dec (uint (drop_bit (8 * i) w AND 255))) [0, 1, 2, 3])"

definition bpf_to_process :: "process_event \<Rightarrow> CppProcessEvent" where
  "bpf_to_process raw =
     \<lparr>cpe_comm = c_string 16 (e_comm raw), cpe_pid = e_pid raw, cpe_ppid = e_ppid raw,
      cpe_filename = c_string 128 (e_filename raw),
      cpe_event = (if e_event_type raw = 0 then ''exec'' else ''exit''), cpe_ts_ns = e_ts_ns raw\<rparr>"

definition bpf_to_flow :: "flow_event \<Rightarrow> CppFlowEvent" where
  "bpf_to_flow raw =
     \<lparr>cfe_pid = f_pid raw, cfe_comm = c_string 16 (f_comm raw), cfe_ppid_comm = c_string 16 (f_ppid_comm raw),
      cfe_exe = c_string 128 (f_exe raw), cfe_src_ip = inet_ntop4 (f_saddr raw), cfe_dst_ip = inet_ntop4 (f_daddr raw),
      cfe_src_port = ucast (f_sport raw), cfe_dst_port = ucast (f_dport raw),
      cfe_bytes_sent = f_bytes_sent raw, cfe_bytes_recv = f_bytes_recv raw,
      cfe_connect_latency_ns = f_connect_latency_ns raw, cfe_state = bpf_state_str (f_state raw),
      cfe_start_ns = f_start_ns raw, cfe_last_ns = f_last_ns raw\<rparr>"

section \<open>The collector\<close>

text \<open>A pointer of \<open>Impl\<close> is modelled by whether it is set.\<close>

record ObserveCollector =
  obs_process_events :: "CppProcessEvent list"
  obs_flow_events :: "CppFlowEvent list"
  obs_proc_skel :: bool
  obs_flow_skel :: bool
  obs_proc_pb :: bool
  obs_flow_pb :: bool

definition ObserveCollector_new :: ObserveCollector where
  "ObserveCollector_new = \<lparr>obs_process_events = [], obs_flow_events = [], obs_proc_skel = False, obs_flow_skel = False,
     obs_proc_pb = False, obs_flow_pb = False\<rparr>"

text \<open>Whether each libbpf call of \<open>Init\<close> succeeds.\<close>

record libbpf_calls =
  proc_open :: bool
  proc_load :: bool
  proc_attach :: bool
  flow_open :: bool
  flow_load :: bool
  flow_attach :: bool
  proc_buffer :: bool
  flow_buffer :: bool

definition Observe_Init :: "libbpf_calls \<Rightarrow> ObserveCollector \<Rightarrow> bool \<times> ObserveCollector" where
  "Observe_Init l c =
     (let c = c\<lparr>obs_proc_skel := proc_open l\<rparr>
      in if \<not> obs_proc_skel c then (False, c)
         else if \<not> proc_load l then (False, c)
         else if \<not> proc_attach l then (False, c)
         else let c = c\<lparr>obs_flow_skel := flow_open l\<rparr>
              in if \<not> obs_flow_skel c then (False, c)
                 else if \<not> flow_load l then (False, c)
                 else if \<not> flow_attach l then (False, c)
                 else let c = c\<lparr>obs_proc_pb := proc_buffer l\<rparr>
                      in if \<not> obs_proc_pb c then (False, c)
                         else let c = c\<lparr>obs_flow_pb := flow_buffer l\<rparr>
                              in if \<not> obs_flow_pb c then (False, c) else (True, c))"

text \<open>The sizes of the two structs, with padding.\<close>

definition sizeof_process_event :: u32 where
  "sizeof_process_event = 168"

definition sizeof_flow_event :: u32 where
  "sizeof_flow_event = 248"

definition on_process_event :: "process_event \<times> u32 \<Rightarrow> ObserveCollector \<Rightarrow> ObserveCollector" where
  "on_process_event d c = (case d of (raw, sz) \<Rightarrow>
     if sz < sizeof_process_event then c
     else c\<lparr>obs_process_events := obs_process_events c @ [bpf_to_process raw]\<rparr>)"

definition on_flow_event :: "flow_event \<times> u32 \<Rightarrow> ObserveCollector \<Rightarrow> ObserveCollector" where
  "on_flow_event d c = (case d of (raw, sz) \<Rightarrow>
     if sz < sizeof_flow_event then c
     else c\<lparr>obs_flow_events := obs_flow_events c @ [bpf_to_flow raw]\<rparr>)"

record observe_env =
  oe_process :: "(process_event \<times> u32) list"
  oe_flow :: "(flow_event \<times> u32) list"

definition Observe_Collect :: "observe_env \<Rightarrow> ObserveCollector \<Rightarrow> ObserveCollector" where
  "Observe_Collect e c =
     (let c = (if obs_proc_pb c then fold on_process_event (oe_process e) c else c)
      in if obs_flow_pb c then fold on_flow_event (oe_flow e) c else c)"

definition Observe_Reset :: "ObserveCollector \<Rightarrow> ObserveCollector" where
  "Observe_Reset c = c\<lparr>obs_process_events := [], obs_flow_events := []\<rparr>"

text \<open>The destructor of \<open>Impl\<close>: the calls that release what is held, in order.\<close>

datatype bpf_handle = ProcBuffer | FlowBuffer | ProcSkel | FlowSkel

definition Observe_destroy :: "ObserveCollector \<Rightarrow> bpf_handle list" where
  "Observe_destroy c =
     (if obs_proc_pb c then [ProcBuffer] else []) @ (if obs_flow_pb c then [FlowBuffer] else []) @
     (if obs_proc_skel c then [ProcSkel] else []) @ (if obs_flow_skel c then [FlowSkel] else [])"

section \<open>What Collect delivers\<close>

lemma fold_on_process:
  "fold on_process_event ds c = c\<lparr>obs_process_events := obs_process_events c @
     map (bpf_to_process \<circ> fst) (filter (\<lambda>(raw, sz). sizeof_process_event \<le> sz) ds)\<rparr>"
  by (induction ds arbitrary: c) (auto simp: on_process_event_def not_less)

lemma fold_on_flow:
  "fold on_flow_event ds c = c\<lparr>obs_flow_events := obs_flow_events c @
     map (bpf_to_flow \<circ> fst) (filter (\<lambda>(raw, sz). sizeof_flow_event \<le> sz) ds)\<rparr>"
  by (induction ds arbitrary: c) (auto simp: on_flow_event_def not_less)

lemma observe_init_all_or_nothing:
  "obs_flow_pb (snd (Observe_Init l ObserveCollector_new)) \<longleftrightarrow> fst (Observe_Init l ObserveCollector_new)"
  by (simp add: Observe_Init_def ObserveCollector_new_def Let_def)

text \<open>
  When \<open>Init\<close> succeeds, \<open>Collect\<close> appends exactly the samples of full size, converted, in the
  order the kernel wrote them; when \<open>Init\<close> fails, flow events are never collected, and process
  events only if the sole failure is the flow buffer.
\<close>

lemma observe_collect_exact:
  "Observe_Collect e (snd (Observe_Init l ObserveCollector_new)) =
    (snd (Observe_Init l ObserveCollector_new))\<lparr>
      obs_process_events := (if list_all (\<lambda>f. f l) [proc_open, proc_load, proc_attach, flow_open, flow_load, flow_attach, proc_buffer]
        then map (bpf_to_process \<circ> fst) (filter (\<lambda>(raw, sz). sizeof_process_event \<le> sz) (oe_process e)) else []),
      obs_flow_events := (if fst (Observe_Init l ObserveCollector_new)
        then map (bpf_to_flow \<circ> fst) (filter (\<lambda>(raw, sz). sizeof_flow_event \<le> sz) (oe_flow e)) else [])\<rparr>"
  by (simp add: Observe_Collect_def Observe_Init_def ObserveCollector_new_def Let_def fold_on_process fold_on_flow)

text \<open>The handles \<open>Init\<close> obtains, and that the destructor releases each of them exactly once.\<close>

definition obtained :: "libbpf_calls \<Rightarrow> bpf_handle set" where
  "obtained l =
     (let proc = proc_open l \<and> proc_load l \<and> proc_attach l; flow = proc \<and> flow_open l \<and> flow_load l \<and> flow_attach l in
      {h. case h of ProcSkel \<Rightarrow> proc_open l | FlowSkel \<Rightarrow> proc \<and> flow_open l | ProcBuffer \<Rightarrow> flow \<and> proc_buffer l
            | FlowBuffer \<Rightarrow> flow \<and> proc_buffer l \<and> flow_buffer l})"

lemma observe_releases_once:
  "distinct (Observe_destroy (snd (Observe_Init l ObserveCollector_new)))"
  "set (Observe_destroy (snd (Observe_Init l ObserveCollector_new))) = obtained l"
proof -
  show "distinct (Observe_destroy (snd (Observe_Init l ObserveCollector_new)))" by (simp add: Observe_destroy_def)
  have "h \<in> set (Observe_destroy (snd (Observe_Init l ObserveCollector_new))) \<longleftrightarrow> h \<in> obtained l" for h
    by (cases h) (simp_all add: Observe_destroy_def Observe_Init_def ObserveCollector_new_def obtained_def Let_def)
  then show "set (Observe_destroy (snd (Observe_Init l ObserveCollector_new))) = obtained l" by blast
qed

lemma observe_collect_buffers:
  "obs_proc_pb (Observe_Collect e c) = obs_proc_pb c" "obs_flow_pb (Observe_Collect e c) = obs_flow_pb c"
  by (simp_all add: Observe_Collect_def Let_def fold_on_process fold_on_flow)

interpretation obsm: total_monitor ObserveCollector_new "\<lambda>l. snd \<circ> Observe_Init (fst l)"
  "\<lambda>l c. Inr (Observe_Collect (snd l) c)" Observe_Reset "\<lambda>c. obs_flow_pb c \<longrightarrow> obs_proc_pb c"
  by unfold_locales
     (auto simp: Observe_Init_def ObserveCollector_new_def Let_def observe_collect_buffers Observe_Reset_def)

end
