(* ===== verification/ConfigManager.thy ===== *)
theory ConfigManager
  imports MonitorInterface
begin

text \<open>
  The diagnose configuration (\<open>src/worker/include/config/config_manager.h\<close>, \<open>config_manager.cpp\<close>).
  The JSON library is not part of the sources: its operations are a parameter, a record of the
  functions \<open>Load\<close> calls. A conversion to the wrong type raises the library's type error, which
  \<open>Load\<close> does not catch; only the exceptions of parsing are caught.
\<close>

section \<open>The JSON library\<close>

record 'j json_api =
  j_parse :: "string \<Rightarrow> 'j option"
  j_contains :: "'j \<Rightarrow> string \<Rightarrow> bool"
  j_at :: "'j \<Rightarrow> string \<Rightarrow> 'j"
  j_is_array :: "'j \<Rightarrow> bool"
  j_elems :: "'j \<Rightarrow> 'j list"
  j_string :: "'j \<Rightarrow> string res"
  j_int :: "'j \<Rightarrow> int res"

text \<open>\<open>if (item.contains(key)) target = item[key];\<close>\<close>

definition opt_string :: "'j json_api \<Rightarrow> 'j \<Rightarrow> string \<Rightarrow> string \<Rightarrow> string res" where
  "opt_string api item key target = (if j_contains api item key then j_string api (j_at api item key) else Inr target)"

definition opt_int :: "'j json_api \<Rightarrow> 'j \<Rightarrow> string \<Rightarrow> int \<Rightarrow> int res" where
  "opt_int api item key target = (if j_contains api item key then j_int api (j_at api item key) else Inr target)"

text \<open>A loop over the elements of an array, in order, stopped by an exception.\<close>

fun for_each :: "('a \<Rightarrow> 'b res) \<Rightarrow> 'a list \<Rightarrow> 'b list res" where
  "for_each f [] = Inr []"
| "for_each f (x # xs) = bind_res (f x) (\<lambda>y. bind_res (for_each f xs) (\<lambda>ys. Inr (y # ys)))"

section \<open>The configuration\<close>

record OffcpuEntry =
  oe_process_name :: string
  oe_thread_name :: string
  oe_min_block_us :: int
  oe_max_block_us :: int
  oe_interval_s :: int
  oe_limit_file_size_mb :: int
  oe_limit_file_num :: int

definition OffcpuEntry_new :: OffcpuEntry where
  "OffcpuEntry_new = \<lparr>oe_process_name = '''', oe_thread_name = '''', oe_min_block_us = 100, oe_max_block_us = 1000000,
     oe_interval_s = 60, oe_limit_file_size_mb = 50, oe_limit_file_num = 3\<rparr>"

record ProfileEntry =
  pe_process_name :: string
  pe_thread_name :: string
  pe_max_nr :: int
  pe_max_size_kb :: int
  pe_cpus :: string
  pe_cpu_threshold_pct :: int

definition ProfileEntry_new :: ProfileEntry where
  "ProfileEntry_new = \<lparr>pe_process_name = '''', pe_thread_name = '''', pe_max_nr = 1000, pe_max_size_kb = 4096,
     pe_cpus = ''0-3'', pe_cpu_threshold_pct = 50\<rparr>"

record 'j ConfigManager =
  cfg_offcpu_entries :: "OffcpuEntry list"
  cfg_profile_entries :: "ProfileEntry list"
  cfg_perf_cpu_threshold_pct :: int
  cfg_perf_overflow_duration_s :: int
  cfg_perf_target_processes :: "string list"
  cfg_perf_target_threads :: "string list"
  cfg_offcpu_bin :: string
  cfg_profile_bin :: string
  cfg_perf_bin :: string
  cfg_output_dir :: string
  cfg_raw :: "'j option"

definition ConfigManager_new :: "'j ConfigManager" where
  "ConfigManager_new = \<lparr>cfg_offcpu_entries = [], cfg_profile_entries = [], cfg_perf_cpu_threshold_pct = 80,
     cfg_perf_overflow_duration_s = 10, cfg_perf_target_processes = [], cfg_perf_target_threads = [],
     cfg_offcpu_bin = ''/usr/bin/offcpu'', cfg_profile_bin = ''/usr/bin/profile'', cfg_perf_bin = ''/usr/bin/perf'',
     cfg_output_dir = ''/tmp/monitor_system/diagnose'', cfg_raw = None\<rparr>"

section \<open>Load\<close>

definition parse_offcpu :: "'j json_api \<Rightarrow> 'j \<Rightarrow> OffcpuEntry res" where
  "parse_offcpu api item =
     (let e = OffcpuEntry_new
      in bind_res (opt_string api item ''process_name'' (oe_process_name e)) (\<lambda>process_name.
         bind_res (opt_string api item ''thread_name'' (oe_thread_name e)) (\<lambda>thread_name.
         bind_res (opt_int api item ''min_block_us'' (oe_min_block_us e)) (\<lambda>min_block_us.
         bind_res (opt_int api item ''max_block_us'' (oe_max_block_us e)) (\<lambda>max_block_us.
         bind_res (opt_int api item ''interval_s'' (oe_interval_s e)) (\<lambda>interval_s.
         bind_res (opt_int api item ''limit_file_size_mb'' (oe_limit_file_size_mb e)) (\<lambda>limit_file_size_mb.
         bind_res (opt_int api item ''limit_file_num'' (oe_limit_file_num e)) (\<lambda>limit_file_num.
         Inr \<lparr>oe_process_name = process_name, oe_thread_name = thread_name, oe_min_block_us = min_block_us,
              oe_max_block_us = max_block_us, oe_interval_s = interval_s,
              oe_limit_file_size_mb = limit_file_size_mb, oe_limit_file_num = limit_file_num\<rparr>))))))))"

definition parse_profile :: "'j json_api \<Rightarrow> 'j \<Rightarrow> ProfileEntry res" where
  "parse_profile api item =
     (let e = ProfileEntry_new
      in bind_res (opt_string api item ''process_name'' (pe_process_name e)) (\<lambda>process_name.
         bind_res (opt_string api item ''thread_name'' (pe_thread_name e)) (\<lambda>thread_name.
         bind_res (opt_int api item ''max_nr'' (pe_max_nr e)) (\<lambda>max_nr.
         bind_res (opt_int api item ''max_size_kb'' (pe_max_size_kb e)) (\<lambda>max_size_kb.
         bind_res (opt_string api item ''cpus'' (pe_cpus e)) (\<lambda>cpus.
         bind_res (opt_int api item ''cpu_threshold_pct'' (pe_cpu_threshold_pct e)) (\<lambda>cpu_threshold_pct.
         Inr \<lparr>pe_process_name = process_name, pe_thread_name = thread_name, pe_max_nr = max_nr,
              pe_max_size_kb = max_size_kb, pe_cpus = cpus, pe_cpu_threshold_pct = cpu_threshold_pct\<rparr>)))))))"

definition array_at :: "'j json_api \<Rightarrow> 'j \<Rightarrow> string \<Rightarrow> 'j list" where
  "array_at api j key =
     (if j_contains api j key \<and> j_is_array api (j_at api j key) then j_elems api (j_at api j key) else [])"

definition load_perf :: "'j json_api \<Rightarrow> 'j \<Rightarrow> 'j ConfigManager \<Rightarrow> 'j ConfigManager res" where
  "load_perf api raw cfg =
     (if j_contains api raw ''perf''
      then let p = j_at api raw ''perf''
           in bind_res (opt_int api p ''cpu_threshold_pct'' (cfg_perf_cpu_threshold_pct cfg)) (\<lambda>threshold.
              bind_res (opt_int api p ''overflow_duration_s'' (cfg_perf_overflow_duration_s cfg)) (\<lambda>duration.
              bind_res (for_each (j_string api) (array_at api p ''target_processes'')) (\<lambda>procs.
              bind_res (for_each (j_string api) (array_at api p ''target_threads'')) (\<lambda>threads.
              Inr (cfg\<lparr>cfg_perf_cpu_threshold_pct := threshold, cfg_perf_overflow_duration_s := duration,
                       cfg_perf_target_processes := cfg_perf_target_processes cfg @ procs,
                       cfg_perf_target_threads := cfg_perf_target_threads cfg @ threads\<rparr>)))))
      else Inr cfg)"

definition load_paths :: "'j json_api \<Rightarrow> 'j \<Rightarrow> 'j ConfigManager \<Rightarrow> 'j ConfigManager res" where
  "load_paths api raw cfg =
     (if j_contains api raw ''paths''
      then let pt = j_at api raw ''paths''
           in bind_res (opt_string api pt ''offcpu_bin'' (cfg_offcpu_bin cfg)) (\<lambda>offcpu_bin.
              bind_res (opt_string api pt ''profile_bin'' (cfg_profile_bin cfg)) (\<lambda>profile_bin.
              bind_res (opt_string api pt ''perf_bin'' (cfg_perf_bin cfg)) (\<lambda>perf_bin.
              bind_res (opt_string api pt ''output_dir'' (cfg_output_dir cfg)) (\<lambda>output_dir.
              Inr (cfg\<lparr>cfg_offcpu_bin := offcpu_bin, cfg_profile_bin := profile_bin,
                       cfg_perf_bin := perf_bin, cfg_output_dir := output_dir\<rparr>)))))
      else Inr cfg)"

definition Config_Load :: "'j json_api \<Rightarrow> file_system \<Rightarrow> string \<Rightarrow> 'j ConfigManager \<Rightarrow> (bool \<times> 'j ConfigManager) res" where
  "Config_Load api fs path cfg =
     (case fs path of
        None \<Rightarrow> Inr (False, cfg)
      | Some content \<Rightarrow>
          (case j_parse api content of
             None \<Rightarrow> Inr (False, cfg)
           | Some raw \<Rightarrow>
               bind_res (for_each (parse_offcpu api) (array_at api raw ''offcpu'')) (\<lambda>offcpu.
               bind_res (for_each (parse_profile api) (array_at api raw ''profile'')) (\<lambda>profile.
               bind_res (load_perf api raw (cfg\<lparr>cfg_raw := Some raw, cfg_offcpu_entries := offcpu,
                           cfg_profile_entries := profile\<rparr>)) (\<lambda>cfg.
               bind_res (load_paths api raw cfg) (\<lambda>cfg. Inr (True, cfg)))))))"

definition Config_Reload :: "'j json_api \<Rightarrow> file_system \<Rightarrow> string \<Rightarrow> 'j ConfigManager \<Rightarrow> (bool \<times> 'j ConfigManager) res" where
  "Config_Reload api fs path cfg = Config_Load api fs path cfg"

section \<open>Loading and reloading\<close>

text \<open>
  \<open>Load\<close> returns \<open>false\<close> exactly when the file cannot be opened or is not JSON, and then leaves
  the whole configuration as it was.
\<close>

lemma config_load_failed_keeps:
  "Config_Load api fs path cfg = Inr (False, cfg') \<longleftrightarrow>
     cfg' = cfg \<and> (fs path = None \<or> (\<exists>content. fs path = Some content \<and> j_parse api content = None))"
  by (auto simp: Config_Load_def split: option.splits)

lemma opt_again: "opt_int api j k v = Inr x \<Longrightarrow> opt_int api j k x = Inr x"
  "opt_string api j k s = Inr y \<Longrightarrow> opt_string api j k y = Inr y"
  by (auto simp: opt_int_def opt_string_def split: if_splits)

lemma load_perf_again:
  assumes "load_perf api raw cfg = Inr c"
  shows "\<exists>ps ts. cfg_perf_target_processes c = cfg_perf_target_processes cfg @ ps \<and>
    cfg_perf_target_threads c = cfg_perf_target_threads cfg @ ts \<and>
    (\<forall>d. cfg_perf_cpu_threshold_pct d = cfg_perf_cpu_threshold_pct c \<and>
         cfg_perf_overflow_duration_s d = cfg_perf_overflow_duration_s c \<longrightarrow>
       load_perf api raw d = Inr (d\<lparr>cfg_perf_target_processes := cfg_perf_target_processes d @ ps,
         cfg_perf_target_threads := cfg_perf_target_threads d @ ts\<rparr>))"
proof (cases "j_contains api raw ''perf''")
  case False
  with assms show ?thesis by (intro exI [of _ "[]"]) (simp add: load_perf_def)
next
  case True
  let ?p = "j_at api raw ''perf''"
  from assms True obtain a b ps ts where
    v: "opt_int api ?p ''cpu_threshold_pct'' (cfg_perf_cpu_threshold_pct cfg) = Inr a"
    "opt_int api ?p ''overflow_duration_s'' (cfg_perf_overflow_duration_s cfg) = Inr b"
    "for_each (j_string api) (array_at api ?p ''target_processes'') = Inr ps"
    "for_each (j_string api) (array_at api ?p ''target_threads'') = Inr ts"
    and c: "c = cfg\<lparr>cfg_perf_cpu_threshold_pct := a, cfg_perf_overflow_duration_s := b,
      cfg_perf_target_processes := cfg_perf_target_processes cfg @ ps, cfg_perf_target_threads := cfg_perf_target_threads cfg @ ts\<rparr>"
    by (auto simp: load_perf_def Let_def)
  show ?thesis
    using True v opt_again(1) [OF v(1)] opt_again(1) [OF v(2)]
    by (intro exI [of _ ps] exI [of _ ts]) (auto simp: c load_perf_def Let_def)
qed

text \<open>The fields a section of the file sets.\<close>

definition same_paths :: "'j ConfigManager \<Rightarrow> 'j ConfigManager \<Rightarrow> bool" where
  "same_paths c d \<longleftrightarrow> cfg_offcpu_bin d = cfg_offcpu_bin c \<and> cfg_profile_bin d = cfg_profile_bin c \<and>
     cfg_perf_bin d = cfg_perf_bin c \<and> cfg_output_dir d = cfg_output_dir c"

lemma load_paths_again:
  assumes "load_paths api raw cfg = Inr c"
  shows "same_paths c d \<longrightarrow> load_paths api raw d = Inr d"
    and "\<exists>u p q r. c = cfg\<lparr>cfg_offcpu_bin := u, cfg_profile_bin := p, cfg_perf_bin := q, cfg_output_dir := r\<rparr>"
proof -
  have "(same_paths c d \<longrightarrow> load_paths api raw d = Inr d) \<and>
      (\<exists>u p q r. c = cfg\<lparr>cfg_offcpu_bin := u, cfg_profile_bin := p, cfg_perf_bin := q, cfg_output_dir := r\<rparr>)"
  proof (cases "j_contains api raw ''paths''")
    case False
    then have c: "c = cfg" using assms by (simp add: load_paths_def)
    have "cfg = cfg\<lparr>cfg_offcpu_bin := cfg_offcpu_bin cfg, cfg_profile_bin := cfg_profile_bin cfg,
      cfg_perf_bin := cfg_perf_bin cfg, cfg_output_dir := cfg_output_dir cfg\<rparr>" by simp
    then have "\<exists>u p q r. c = cfg\<lparr>cfg_offcpu_bin := u, cfg_profile_bin := p, cfg_perf_bin := q, cfg_output_dir := r\<rparr>"
      unfolding c by blast
    with False show ?thesis by (simp add: load_paths_def)
  next
    case True
    let ?j = "j_at api raw ''paths''"
    from assms True obtain u p q r where
      v: "opt_string api ?j ''offcpu_bin'' (cfg_offcpu_bin cfg) = Inr u" "opt_string api ?j ''profile_bin'' (cfg_profile_bin cfg) = Inr p"
      "opt_string api ?j ''perf_bin'' (cfg_perf_bin cfg) = Inr q" "opt_string api ?j ''output_dir'' (cfg_output_dir cfg) = Inr r"
      and c: "c = cfg\<lparr>cfg_offcpu_bin := u, cfg_profile_bin := p, cfg_perf_bin := q, cfg_output_dir := r\<rparr>"
      by (auto simp: load_paths_def Let_def)
    have "load_paths api raw d = Inr d" if "same_paths c d"
    proof -
      have f: "cfg_offcpu_bin d = u" "cfg_profile_bin d = p" "cfg_perf_bin d = q" "cfg_output_dir d = r"
        using that by (simp_all add: same_paths_def c)
      then have "d\<lparr>cfg_offcpu_bin := u, cfg_profile_bin := p, cfg_perf_bin := q, cfg_output_dir := r\<rparr> = d" by (cases d) simp
      with True show ?thesis
        using v [THEN opt_again(2)] by (simp add: load_paths_def Let_def f)
    qed
    with c show ?thesis by blast
  qed
  then show "same_paths c d \<longrightarrow> load_paths api raw d = Inr d"
    and "\<exists>u p q r. c = cfg\<lparr>cfg_offcpu_bin := u, cfg_profile_bin := p, cfg_perf_bin := q, cfg_output_dir := r\<rparr>" by blast+
qed

text \<open>
  C40: Reloading the same file changes the configuration although the file did not change: the
  entries and settings are as after the first load, but every perf target process and thread of the
  file is listed once more.
\<close>

theorem config_reload_repeats_targets:
  assumes "Config_Load api fs path cfg = Inr (True, c1)" and "Config_Reload api fs path c1 = Inr (b, c2)"
  shows "\<exists>ps ts. cfg_perf_target_processes c1 = cfg_perf_target_processes cfg @ ps \<and>
    cfg_perf_target_threads c1 = cfg_perf_target_threads cfg @ ts \<and> b \<and>
    c2 = c1\<lparr>cfg_perf_target_processes := cfg_perf_target_processes c1 @ ps, cfg_perf_target_threads := cfg_perf_target_threads c1 @ ts\<rparr>"
proof -
  from assms(1) obtain content raw os ps0 m where
    conf: "fs path = Some content" "j_parse api content = Some raw"
    and entries: "for_each (parse_offcpu api) (array_at api raw ''offcpu'') = Inr os" "for_each (parse_profile api) (array_at api raw ''profile'') = Inr ps0"
    and perf: "load_perf api raw (cfg\<lparr>cfg_raw := Some raw, cfg_offcpu_entries := os, cfg_profile_entries := ps0\<rparr>) = Inr m"
    and paths: "load_paths api raw m = Inr c1"
    by (auto simp: Config_Load_def split: option.splits)
  from load_perf_again [OF perf] obtain ps ts where t:
    "cfg_perf_target_processes m = cfg_perf_target_processes cfg @ ps" "cfg_perf_target_threads m = cfg_perf_target_threads cfg @ ts"
    and again: "\<And>d. cfg_perf_cpu_threshold_pct d = cfg_perf_cpu_threshold_pct m \<Longrightarrow>
       cfg_perf_overflow_duration_s d = cfg_perf_overflow_duration_s m \<Longrightarrow>
       load_perf api raw d = Inr (d\<lparr>cfg_perf_target_processes := cfg_perf_target_processes d @ ps, cfg_perf_target_threads := cfg_perf_target_threads d @ ts\<rparr>)"
    by auto
  from load_paths_again(2) [OF paths] obtain u p q r where
    c1: "c1 = m\<lparr>cfg_offcpu_bin := u, cfg_profile_bin := p, cfg_perf_bin := q, cfg_output_dir := r\<rparr>" by blast
  have m: "cfg_raw m = Some raw" "cfg_offcpu_entries m = os" "cfg_profile_entries m = ps0"
    using perf by (auto simp: load_perf_def Let_def split: if_splits)
  then have same: "c1\<lparr>cfg_raw := Some raw, cfg_offcpu_entries := os, cfg_profile_entries := ps0\<rparr> = c1"
    unfolding c1 by (cases m) simp
  let ?c = "c1\<lparr>cfg_perf_target_processes := cfg_perf_target_processes c1 @ ps, cfg_perf_target_threads := cfg_perf_target_threads c1 @ ts\<rparr>"
  have "load_perf api raw c1 = Inr ?c" by (rule again) (simp_all add: c1)
  moreover have "load_paths api raw ?c = Inr ?c"
    using load_paths_again(1) [OF paths, of ?c] by (simp add: same_paths_def)
  ultimately have "Config_Load api fs path c1 = Inr (True, ?c)"
    using conf entries same by (simp add: Config_Load_def)
  with assms(2) t c1 show ?thesis by (auto simp: Config_Reload_def)
qed

section \<open>A JSON library to run on\<close>

datatype json = JString string | JInt int | JArray "json list" | JObject "(string \<times> json) list"

definition json_lib :: "(string \<Rightarrow> json option) \<Rightarrow> json json_api" where
  "json_lib parse = \<lparr>j_parse = parse,
     j_contains = (\<lambda>j k. case j of JObject kvs \<Rightarrow> map_of kvs k \<noteq> None | _ \<Rightarrow> False),
     j_at = (\<lambda>j k. case j of JObject kvs \<Rightarrow> (case map_of kvs k of Some v \<Rightarrow> v | None \<Rightarrow> j) | _ \<Rightarrow> j),
     j_is_array = (\<lambda>j. case j of JArray _ \<Rightarrow> True | _ \<Rightarrow> False),
     j_elems = (\<lambda>j. case j of JArray xs \<Rightarrow> xs | _ \<Rightarrow> []),
     j_string = (\<lambda>j. case j of JString s \<Rightarrow> Inr s | _ \<Rightarrow> Inl JsonTypeError),
     j_int = (\<lambda>j. case j of JInt i \<Rightarrow> Inr i | _ \<Rightarrow> Inl JsonTypeError)\<rparr>"

definition demo_conf :: json where
  "demo_conf = JObject [(''offcpu'', JArray [JObject [(''process_name'', JString ''nginx''), (''interval_s'', JInt 30)]]),
     (''perf'', JObject [(''cpu_threshold_pct'', JInt 70), (''target_processes'', JArray [JString ''nginx''])])]"

definition demo_api :: "json json_api" where
  "demo_api = json_lib (\<lambda>content. if content = ''conf'' then Some demo_conf else None)"

definition demo_loaded :: "json ConfigManager" where
  "demo_loaded = ConfigManager_new\<lparr>cfg_offcpu_entries := [OffcpuEntry_new\<lparr>oe_process_name := ''nginx'', oe_interval_s := 30\<rparr>],
     cfg_perf_cpu_threshold_pct := 70, cfg_perf_target_processes := [''nginx''], cfg_raw := Some demo_conf\<rparr>"

lemmas json_simps = demo_api_def json_lib_def demo_conf_def Config_Load_def array_at_def load_perf_def load_paths_def
  parse_offcpu_def opt_int_def opt_string_def OffcpuEntry_new_def ConfigManager_new_def Let_def

lemma demo_load: "Config_Load demo_api (\<lambda>_. Some ''conf'') ''c.json'' ConfigManager_new = Inr (True, demo_loaded)"
  by (simp add: json_simps demo_loaded_def)

lemma demo_reload: "\<exists>c2. Config_Reload demo_api (\<lambda>_. Some ''conf'') ''c.json'' demo_loaded = Inr (True, c2)"
  by (simp add: json_simps demo_loaded_def Config_Reload_def)

theorem config_reload_repeats_targets_witness:
  "\<exists>c2. Config_Reload demo_api (\<lambda>_. Some ''conf'') ''c.json'' demo_loaded = Inr (True, c2) \<and>
    cfg_perf_target_processes c2 = [''nginx'', ''nginx'']"
proof -
  obtain c2 where r: "Config_Reload demo_api (\<lambda>_. Some ''conf'') ''c.json'' demo_loaded = Inr (True, c2)"
    using demo_reload by blast
  from config_reload_repeats_targets [OF demo_load this] r show ?thesis
    by (auto simp: demo_loaded_def ConfigManager_new_def)
qed

end
