(* ===== verification/MonitorPusher.thy ===== *)
theory MonitorPusher
  imports MetricCollector PerfDiagnoser ObserveCollector ConfigManager Messages
begin

text \<open>
  The main object of the worker (\<open>src/worker/include/rpc/monitor_pusher.h\<close>,
  \<open>monitor_pusher.cpp\<close>): it initialises and configures the collectors of all layers, and then
  pushes one report per interval. Whether the channel connects within its deadline is an input of
  \<open>Run\<close>; a push yields the message handed to the stub, if there is a stub. The pushing
  thread, the thread of the perf diagnoser and \<open>Stop\<close> are steps of one transition system.
\<close>

section \<open>State\<close>

record MonitorPusher =
  mp_manager_addr :: string
  mp_interval_s :: int
  mp_metrics :: MetricCollector
  mp_observer :: ObserveCollector
  mp_bpf :: BpfDiagnoser
  mp_perf :: PerfDiagnoser
  mp_running :: bool
  mp_stub :: bool

definition MonitorPusher_new :: "string \<Rightarrow> int \<Rightarrow> MonitorPusher" where
  "MonitorPusher_new manager_addr interval_s =
     \<lparr>mp_manager_addr = manager_addr, mp_interval_s = interval_s, mp_metrics = MetricCollector_new,
      mp_observer = ObserveCollector_new, mp_bpf = BpfDiagnoser_new, mp_perf = PerfDiagnoser_new,
      mp_running = False, mp_stub = False\<rparr>"

definition pusher_connect :: "(string \<Rightarrow> bool) \<Rightarrow> MonitorPusher \<Rightarrow> bool \<times> MonitorPusher" where
  "pusher_connect connects pu =
     (if \<not> connects (mp_manager_addr pu) then (False, pu) else (True, pu\<lparr>mp_stub := True\<rparr>))"

section \<open>Run\<close>

definition apply_bpf_config :: "'j ConfigManager \<Rightarrow> BpfDiagnoser \<Rightarrow> BpfDiagnoser" where
  "apply_bpf_config cfg d =
     (let d = d\<lparr>bd_output_dir := cfg_output_dir cfg, bd_offcpu_bin := cfg_offcpu_bin cfg,
                bd_profile_bin := cfg_profile_bin cfg\<rparr>
      in case cfg_offcpu_entries cfg of
           [] \<Rightarrow> d
         | e # _ \<Rightarrow> d\<lparr>bd_limit_file_num := oe_limit_file_num e, bd_limit_file_size_mb := oe_limit_file_size_mb e\<rparr>)"

definition apply_perf_config :: "'j ConfigManager \<Rightarrow> PerfDiagnoser \<Rightarrow> PerfDiagnoser" where
  "apply_perf_config cfg p =
     (let p = p\<lparr>pf_output_dir := cfg_output_dir cfg, pf_perf_bin := cfg_perf_bin cfg,
                pf_cpu_threshold_pct := cfg_perf_cpu_threshold_pct cfg,
                pf_overflow_duration_s := cfg_perf_overflow_duration_s cfg,
                pf_target_processes := cfg_perf_target_processes cfg,
                pf_target_threads := cfg_perf_target_threads cfg\<rparr>
      in case cfg_offcpu_entries cfg of [] \<Rightarrow> p | e # _ \<Rightarrow> p\<lparr>pf_limit_file_num := oe_limit_file_num e\<rparr>)"

definition start_offcpu_entries :: "OffcpuEntry list \<Rightarrow> BpfDiagnoser \<times> world \<Rightarrow> BpfDiagnoser \<times> world" where
  "start_offcpu_entries es dw =
     fold (\<lambda>e (d, w). start_offcpu (oe_process_name e) (oe_thread_name e) (oe_min_block_us e)
                         (oe_max_block_us e) (oe_interval_s e) d w) es dw"

definition start_profile_entries :: "ProfileEntry list \<Rightarrow> BpfDiagnoser \<times> world \<Rightarrow> BpfDiagnoser \<times> world" where
  "start_profile_entries es dw =
     fold (\<lambda>e (d, w). start_profile (pe_process_name e) (pe_thread_name e) (pe_max_nr e)
                         (pe_max_size_kb e) (pe_cpus e) d w) es dw"

text \<open>
  The inputs of \<open>Run\<close>: the JSON library, whether the channel connects, the environment of the
  collectors and the outcomes of the libbpf calls. A failed connection and a failed \<open>Load\<close> are
  logged and ignored; a type error of the JSON library leaves \<open>Run\<close>.
\<close>

definition Pusher_Run :: "'j json_api \<Rightarrow> (string \<Rightarrow> bool) \<Rightarrow> env \<Rightarrow> libbpf_calls \<Rightarrow> MonitorPusher \<times> world \<Rightarrow> (MonitorPusher \<times> world) res" where
  "Pusher_Run api connects e l puw =
     (let (pu, w) = puw;
          (ok, pu) = pusher_connect connects pu;
          pu = pu\<lparr>mp_metrics := Metric_Init e (mp_metrics pu)\<rparr>;
          pu = pu\<lparr>mp_observer := snd (Observe_Init l (mp_observer pu))\<rparr>
      in bind_res (Config_Load api (env_fs e) ''conf/diagnose_conf.json'' ConfigManager_new)
           (\<lambda>(loaded, cfg).
             let pu = pu\<lparr>mp_bpf := apply_bpf_config cfg (mp_bpf pu), mp_perf := apply_perf_config cfg (mp_perf pu)\<rparr>;
                 w = Bpf_Init (mp_bpf pu) w;
                 w = Perf_Init (mp_perf pu) w;
                 (d, w) = start_offcpu_entries (cfg_offcpu_entries cfg) (mp_bpf pu, w);
                 (d, w) = start_profile_entries (cfg_profile_entries cfg) (d, w)
             in Inr (pu\<lparr>mp_bpf := d, mp_running := True\<rparr>, w)))"

section \<open>The report\<close>

definition set_cpu_load :: "CpuLoadMonitor \<Rightarrow> CpuLoad" where
  "set_cpu_load c = \<lparr>cl_load_1m = load_1m c, cl_load_5m = load_5m c, cl_load_15m = load_15m c, cl_nr_cores = nr_cores c\<rparr>"

definition set_cpu_stat :: "CpuStatMonitor \<Rightarrow> CpuStat" where
  "set_cpu_stat c = \<lparr>cs_user_pct = p_user (pct c), cs_system_pct = p_system (pct c), cs_idle_pct = p_idle (pct c),
     cs_iowait_pct = p_iowait (pct c), cs_steal_pct = p_steal (pct c), cs_softirq_pct = p_softirq (pct c)\<rparr>"

definition set_mem :: "MemMonitor \<Rightarrow> MemInfo" where
  "set_mem m = \<lparr>mi_total_gb = total_gb m, mi_used_gb = used_gb m, mi_free_gb = free_gb m,
     mi_available_gb = available_gb m, mi_cached_gb = cached_gb m, mi_buffers_gb = buffers_gb m,
     mi_swap_total_gb = swap_total_gb m, mi_swap_used_gb = swap_used_gb m, mi_used_pct = used_pct m\<rparr>"

definition add_disk :: "DiskStats \<Rightarrow> DiskInfo" where
  "add_disk d = \<lparr>di_device = ds_device d, di_read_mbps = ds_read_mbps d, di_write_mbps = ds_write_mbps d,
     di_iops = ds_iops d, di_io_latency_ms = ds_io_latency_ms d\<rparr>"

definition add_net :: "NetStats \<Rightarrow> NetInfo" where
  "add_net n = \<lparr>ni_iface = ns_iface n, ni_rx_mbps = ns_rx_mbps n, ni_tx_mbps = ns_tx_mbps n,
     ni_rx_packets = ns_rx_packets n, ni_tx_packets = ns_tx_packets n, ni_rx_dropped = ns_rx_dropped n,
     ni_tx_dropped = ns_tx_dropped n, ni_rx_errors = ns_rx_errors n, ni_tx_errors = ns_tx_errors n\<rparr>"

definition add_process_event :: "CppProcessEvent \<Rightarrow> ProcessEvent" where
  "add_process_event e = \<lparr>pe_comm = cpe_comm e, pe_pid = cpe_pid e, pe_ppid = cpe_ppid e,
     pe_filename = cpe_filename e, pe_event = cpe_event e, pe_ts_ns = cpe_ts_ns e\<rparr>"

definition add_flow_event :: "CppFlowEvent \<Rightarrow> FlowEvent" where
  "add_flow_event f = \<lparr>fe_pid = cfe_pid f, fe_comm = cfe_comm f, fe_ppid_comm = cfe_ppid_comm f, fe_exe = cfe_exe f,
     fe_src_ip = cfe_src_ip f, fe_src_port = cfe_src_port f, fe_dst_ip = cfe_dst_ip f, fe_dst_port = cfe_dst_port f,
     fe_bytes_sent = cfe_bytes_sent f, fe_bytes_recv = cfe_bytes_recv f,
     fe_connect_latency_ns = cfe_connect_latency_ns f, fe_state = cfe_state f,
     fe_start_ns = cfe_start_ns f, fe_last_ns = cfe_last_ns f\<rparr>"

definition add_diagnose_event :: "CppDiagnoseEvent \<Rightarrow> DiagnoseEvent" where
  "add_diagnose_event ev = \<lparr>de_type = ev_type ev, de_process_name = ev_process_name ev,
     de_thread_name = ev_thread_name ev, de_file_path = ev_file_path ev, de_timestamp = ev_timestamp ev,
     de_cpu_percent = ev_cpu_percent ev\<rparr>"

definition build_info :: "int \<Rightarrow> MonitorPusher \<Rightarrow> MonitorInfo" where
  "build_info now pu =
     (let m = mp_metrics pu in
      \<lparr>m_hostname = hostname (mc_host m), m_ip = ip (mc_host m), m_timestamp = now,
       m_cpu_load = Some (set_cpu_load (mc_cpu_load m)),
       m_cpu_stat = Some (set_cpu_stat (mc_cpu_stat m)),
       m_mem = Some (set_mem (mc_mem m)),
       m_disks = map add_disk (disks (mc_disk m)),
       m_nets = map add_net (interfaces (mc_net m)),
       m_observe_batch = Some \<lparr>ob_process_events = map add_process_event (obs_process_events (mp_observer pu)),
         ob_flow_events = map add_flow_event (obs_flow_events (mp_observer pu))\<rparr>,
       m_diagnose_events = map add_diagnose_event (bd_events (mp_bpf pu)) @
         map add_diagnose_event (pf_events (mp_perf pu))\<rparr>)"

section \<open>Pushing\<close>

text \<open>The three parts of \<open>do_push\<close>: collecting every layer, building the message, clearing the events.\<close>

definition push_collect :: "env \<Rightarrow> observe_env \<Rightarrow> MonitorPusher \<times> world \<Rightarrow> (MonitorPusher \<times> world) res" where
  "push_collect e oe puw =
     (let (pu, w) = puw
      in bind_res (Metric_Collect e (mp_metrics pu))
           (\<lambda>m. let pu = pu\<lparr>mp_metrics := m\<rparr>;
                    pu = pu\<lparr>mp_observer := Observe_Collect oe (mp_observer pu)\<rparr>;
                    (d, w) = Bpf_Collect (mp_bpf pu) w;
                    pu = pu\<lparr>mp_bpf := d, mp_perf := Perf_Collect (mp_perf pu)\<rparr>
                in Inr (pu, w)))"

definition push_clear :: "MonitorPusher \<Rightarrow> MonitorPusher" where
  "push_clear pu = pu\<lparr>mp_observer := Observe_Reset (mp_observer pu), mp_bpf := Bpf_Reset (mp_bpf pu),
     mp_perf := Perf_Reset (mp_perf pu)\<rparr>"

definition do_push :: "env \<Rightarrow> observe_env \<Rightarrow> MonitorPusher \<times> world \<Rightarrow> ((MonitorPusher \<times> world) \<times> MonitorInfo option) res" where
  "do_push e oe puw =
     bind_res (push_collect e oe puw)
       (\<lambda>(pu, w). let info = build_info (w_time w) pu; pu = push_clear pu
                  in Inr ((pu, w), if mp_stub pu then Some info else None))"

definition Pusher_Stop :: "MonitorPusher \<times> world \<Rightarrow> MonitorPusher \<times> world" where
  "Pusher_Stop puw =
     (let (pu, w) = puw; pu = pu\<lparr>mp_running := False\<rparr>;
          pu = pu\<lparr>mp_bpf := Bpf_Reset (mp_bpf pu)\<rparr>;
          (p, w) = Perf_Stop (mp_perf pu) w
      in (pu\<lparr>mp_perf := p\<rparr>, w))"

text \<open>
  The destructor stops the pusher and then destroys its members, last first: the perf diagnoser,
  whose destructor stops it once more, the vector of running tools, and the observer's handles.
\<close>

definition Perf_destroy :: "PerfDiagnoser \<Rightarrow> world \<Rightarrow> world" where
  "Perf_destroy p w =
     (let (p, w) = Perf_Stop p w in w\<lparr>w_os := Runner_destroy (pf_runner p) (w_os w)\<rparr>)"

definition Bpf_destroy :: "BpfDiagnoser \<Rightarrow> world \<Rightarrow> world" where
  "Bpf_destroy d w = w\<lparr>w_os := fold (\<lambda>e. Runner_destroy (re_runner e)) (bd_runners d) (w_os w)\<rparr>"

definition Pusher_destroy :: "MonitorPusher \<times> world \<Rightarrow> world \<times> bpf_handle list" where
  "Pusher_destroy puw =
     (let (pu, w) = Pusher_Stop puw;
          w = Perf_destroy (mp_perf pu) w;
          w = Bpf_destroy (mp_bpf pu) w
      in (w, Observe_destroy (mp_observer pu)))"

text \<open>
  The steps of the worker process: a round of \<open>push_loop\<close> while \<open>running_\<close> is set, an iteration of
  the perf thread while its flag is set, \<open>Stop\<close>, and changes of the world around it. A round is one
  step here, although nothing keeps the perf thread from running in the middle of it: what is
  shown of these runs does not concern the perf events, and the theory \<open>WorkerThreads\<close> splits the round
  where they are concerned.
\<close>

datatype worker_event = PushRound env observe_env | PerfRound u64 int | StopCall | WorldChange world

fun worker_step :: "worker_event \<Rightarrow> MonitorPusher \<times> world \<Rightarrow> ((MonitorPusher \<times> world) \<times> MonitorInfo option) res" where
  "worker_step (PushRound e oe) (pu, w) =
     (if mp_running pu then do_push e oe (pu, w) else Inr ((pu, w), None))"
| "worker_step (PerfRound now hz) (pu, w) =
     (if pf_running (mp_perf pu)
      then bind_res (worker_iter now hz (mp_perf pu) w) (\<lambda>(p, w). Inr ((pu\<lparr>mp_perf := p\<rparr>, w), None))
      else Inr ((pu, w), None))"
| "worker_step StopCall (pu, w) = Inr (Pusher_Stop (pu, w), None)"
| "worker_step (WorldChange w') (pu, w) = Inr ((pu, w'), None)"

fun worker_run :: "worker_event list \<Rightarrow> MonitorPusher \<times> world \<Rightarrow> ((MonitorPusher \<times> world) \<times> MonitorInfo list) res" where
  "worker_run [] s = Inr (s, [])"
| "worker_run (ev # evs) s =
     bind_res (worker_step ev s)
       (\<lambda>(s, sent). bind_res (worker_run evs s)
          (\<lambda>(s, rest). Inr (s, (case sent of None \<Rightarrow> rest | Some info \<Rightarrow> info # rest))))"

lemma worker_run_append:
  "worker_run (xs @ ys) s = bind_res (worker_run xs s) (\<lambda>(s, a). bind_res (worker_run ys s) (\<lambda>(s, b). Inr (s, a @ b)))"
  by (induction xs arbitrary: s) (auto simp: bind_res_def split: sum.splits option.splits)

section \<open>What a report contains\<close>

definition worker_inv :: "MonitorPusher \<Rightarrow> bool" where
  "worker_inv pu \<longleftrightarrow> metric_wf (mp_metrics pu) \<and> bpf_inv (mp_bpf pu) \<and> perf_inv (mp_perf pu)"

text \<open>The floating-point values of a report.\<close>

definition report_values :: "MonitorInfo \<Rightarrow> double list" where
  "report_values info =
     (let l = get_cpu_load info; s = get_cpu_stat info; m = get_mem info in
      [cl_load_1m l, cl_load_5m l, cl_load_15m l,
       cs_user_pct s, cs_system_pct s, cs_idle_pct s, cs_iowait_pct s, cs_steal_pct s, cs_softirq_pct s,
       mi_total_gb m, mi_used_gb m, mi_free_gb m, mi_available_gb m, mi_cached_gb m, mi_buffers_gb m,
       mi_swap_total_gb m, mi_swap_used_gb m, mi_used_pct m] @
      concat (map (\<lambda>d. [di_read_mbps d, di_write_mbps d, di_iops d, di_io_latency_ms d]) (m_disks info)) @
      concat (map (\<lambda>n. [ni_rx_mbps n, ni_tx_mbps n]) (m_nets info)))"

definition diagnose_ok :: "PerfDiagnoser \<Rightarrow> DiagnoseEvent \<Rightarrow> bool" where
  "diagnose_ok p de \<longleftrightarrow> de_type de \<in> {''offcpu'', ''profile''} \<or>
     (de_type de = ''perf'' \<and> perf_report_ok p (de_process_name de) (de_file_path de) (de_cpu_percent de))"

definition report_ok :: "PerfDiagnoser \<Rightarrow> MonitorInfo \<Rightarrow> bool" where
  "report_ok p info \<longleftrightarrow> m_ip info \<noteq> [] \<and> 1 \<le> sint (cl_nr_cores (get_cpu_load info)) \<and>
     list_all is_double (report_values info) \<and> list_all (\<lambda>n. ni_iface n \<noteq> ''lo'') (m_nets info) \<and>
     list_all (diagnose_ok p) (m_diagnose_events info)"

lemma build_info_values:
  assumes "metric_wf (mp_metrics pu)"
  shows "list_all is_double (report_values (build_info now pu))"
  using assms
  by (auto simp: metric_wf_def cpu_load_wf_def cpu_stat_wf_def pct_values_def mem_wf_def disk_wf_def net_wf_def
      report_values_def build_info_def Let_def get_cpu_load_def get_cpu_stat_def get_mem_def set_cpu_load_def
      set_cpu_stat_def set_mem_def add_disk_def add_net_def list_all_iff)

lemma build_info_ok:
  assumes "worker_inv pu"
  shows "report_ok (mp_perf pu) (build_info now pu)"
proof -
  have m: "metric_wf (mp_metrics pu)" and b: "bpf_inv (mp_bpf pu)" and p: "perf_inv (mp_perf pu)"
    using assms by (simp_all add: worker_inv_def)
  have "list_all (diagnose_ok (mp_perf pu)) (m_diagnose_events (build_info now pu))"
    using b p by (auto simp: build_info_def Let_def list_all_iff diagnose_ok_def add_diagnose_event_def bpf_inv_def
        bpf_event_ok_def perf_inv_def)
  moreover have "m_ip (build_info now pu) \<noteq> []" "1 \<le> sint (cl_nr_cores (get_cpu_load (build_info now pu)))"
    "list_all (\<lambda>n. ni_iface n \<noteq> ''lo'') (m_nets (build_info now pu))"
    using m by (simp_all add: metric_wf_def host_wf_def cpu_load_wf_def net_wf_def build_info_def Let_def
        get_cpu_load_def set_cpu_load_def add_net_def list_all_iff)
  ultimately show ?thesis using build_info_values [OF m] by (simp add: report_ok_def)
qed

section \<open>Steps of the worker\<close>

lemma push_collect_result:
  assumes "push_collect e oe (pu, w) = Inr (pu', w')"
  obtains m where "Metric_Collect e (mp_metrics pu) = Inr m"
    and "pu' = pu\<lparr>mp_metrics := m, mp_observer := Observe_Collect oe (mp_observer pu),
           mp_bpf := fst (Bpf_Collect (mp_bpf pu) w), mp_perf := Perf_Collect (mp_perf pu)\<rparr>"
    and "w' = snd (Bpf_Collect (mp_bpf pu) w)"
  using assms by (auto simp: push_collect_def Let_def split_beta)

lemma do_push_result:
  assumes "do_push e oe (pu, w) = Inr ((pu', w'), sent)"
  obtains pu1 where "push_collect e oe (pu, w) = Inr (pu1, w')" and "pu' = push_clear pu1"
    and "sent = (if mp_stub pu then Some (build_info (w_time w') pu1) else None)"
proof -
  from assms obtain pu1 where pu1: "push_collect e oe (pu, w) = Inr (pu1, w')" "pu' = push_clear pu1"
    "sent = (if mp_stub (push_clear pu1) then Some (build_info (w_time w') pu1) else None)"
    by (auto simp: do_push_def Let_def)
  moreover from pu1(1) have "mp_stub (push_clear pu1) = mp_stub pu"
    by (auto simp: push_clear_def elim!: push_collect_result)
  ultimately show thesis using that by simp
qed

definition kept_setup :: "MonitorPusher \<Rightarrow> MonitorPusher \<Rightarrow> bool" where
  "kept_setup pu pu' \<longleftrightarrow> same_perf_config (mp_perf pu) (mp_perf pu') \<and> mp_stub pu' = mp_stub pu"

lemma push_collect_inv:
  assumes "worker_inv pu" and "push_collect e oe (pu, w) = Inr (pu', w')"
  shows "worker_inv pu' \<and> kept_setup pu pu'"
proof -
  obtain m where m: "Metric_Collect e (mp_metrics pu) = Inr m"
    and pu': "pu' = pu\<lparr>mp_metrics := m, mp_observer := Observe_Collect oe (mp_observer pu),
           mp_bpf := fst (Bpf_Collect (mp_bpf pu) w), mp_perf := Perf_Collect (mp_perf pu)\<rparr>"
    using assms(2) by (rule push_collect_result)
  have "metric_wf m" using assms(1) m by (auto simp: worker_inv_def intro: metric_collect_wf)
  with assms(1) show ?thesis
    by (simp add: pu' worker_inv_def kept_setup_def bpf_collect_inv perf_calls_inv)
qed

lemma bpf_reset_inv: "bpf_inv d \<Longrightarrow> bpf_inv (Bpf_Reset d)"
  by (rule bpf_inv_grow) (auto simp: Bpf_Reset_def)

lemma push_clear_inv: "worker_inv pu \<Longrightarrow> worker_inv (push_clear pu) \<and> kept_setup pu (push_clear pu)"
  by (simp add: push_clear_def worker_inv_def kept_setup_def bpf_reset_inv perf_calls_inv)

lemma report_ok_config: "same_perf_config p p' \<Longrightarrow> report_ok p' info \<longleftrightarrow> report_ok p info"
  unfolding report_ok_def diagnose_ok_def perf_report_ok_def same_perf_config_def by simp

lemma kept_setup_trans: "kept_setup a b \<Longrightarrow> kept_setup b c \<Longrightarrow> kept_setup a c"
  by (simp add: kept_setup_def same_perf_config_def)

lemma worker_step_inv:
  assumes "worker_inv pu" and "worker_step ev (pu, w) = Inr ((pu', w'), sent)"
  shows "worker_inv pu' \<and> kept_setup pu pu' \<and> (\<forall>info. sent = Some info \<longrightarrow> report_ok (mp_perf pu) info)"
proof (cases ev)
  case (PushRound e oe)
  show ?thesis
  proof (cases "mp_running pu")
    case True
    then obtain pu1 where pu1: "push_collect e oe (pu, w) = Inr (pu1, w')" "pu' = push_clear pu1"
      and sent: "sent = (if mp_stub pu then Some (build_info (w_time w') pu1) else None)"
      using assms(2) PushRound by (auto elim: do_push_result)
    have 1: "worker_inv pu1" "kept_setup pu pu1" using push_collect_inv [OF assms(1) pu1(1)] by simp_all
    have "report_ok (mp_perf pu) (build_info (w_time w') pu1)"
      using build_info_ok [OF 1(1)] report_ok_config [of "mp_perf pu" "mp_perf pu1"] 1(2) by (simp add: kept_setup_def)
    moreover have "worker_inv pu' \<and> kept_setup pu pu'"
      using push_clear_inv [OF 1(1)] 1(2) kept_setup_trans pu1(2) by auto
    ultimately show ?thesis using sent by auto
  qed (use assms PushRound in \<open>simp add: kept_setup_def same_perf_config_def\<close>)
next
  case (PerfRound now hz)
  then show ?thesis
    using assms worker_iter_inv [of "mp_perf pu" now hz w]
    by (auto simp: worker_inv_def kept_setup_def same_perf_config_def split: if_splits)
next
  case StopCall
  then show ?thesis
    using assms perf_calls_inv(3) [of "mp_perf pu" w]
    by (auto simp: worker_inv_def kept_setup_def bpf_reset_inv Pusher_Stop_def Let_def split_beta)
next
  case (WorldChange w'')
  then show ?thesis using assms by (simp add: kept_setup_def same_perf_config_def)
qed

lemma worker_run_inv:
  assumes "worker_inv pu" and "worker_run evs (pu, w) = Inr ((pu', w'), sent)"
  shows "worker_inv pu' \<and> kept_setup pu pu' \<and> (\<forall>info \<in> set sent. report_ok (mp_perf pu) info)"
  using assms
proof (induction evs arbitrary: pu w sent)
  case Nil
  then show ?case by (simp add: kept_setup_def same_perf_config_def)
next
  case (Cons ev evs)
  then obtain pu1 w1 s1 s2 where st: "worker_step ev (pu, w) = Inr ((pu1, w1), s1)"
    and rn: "worker_run evs (pu1, w1) = Inr ((pu', w'), s2)" and sent: "sent = (case s1 of None \<Rightarrow> s2 | Some info \<Rightarrow> info # s2)"
    by auto
  note a = worker_step_inv [OF Cons.prems(1) st]
  have b: "worker_inv pu' \<and> kept_setup pu1 pu' \<and> (\<forall>info \<in> set s2. report_ok (mp_perf pu1) info)"
    by (rule Cons.IH [OF _ rn]) (use a in simp)
  with a have "\<forall>info \<in> set s2. report_ok (mp_perf pu) info"
    using report_ok_config by (simp add: kept_setup_def) blast
  with a b sent kept_setup_trans [of pu pu1 pu'] show ?case by (auto split: option.splits)
qed

section \<open>Run establishes the invariant\<close>

lemma bpf_new_inv: "bpf_inv (apply_bpf_config cfg BpfDiagnoser_new)"
  by (simp add: bpf_inv_def apply_bpf_config_def BpfDiagnoser_new_def Let_def split: list.splits)

lemma start_entries_inv:
  "bpf_inv (fst dw) \<Longrightarrow> bpf_inv (fst (start_offcpu_entries es dw))"
  "bpf_inv (fst dw) \<Longrightarrow> bpf_inv (fst (start_profile_entries ps dw))"
proof -
  show "bpf_inv (fst dw) \<Longrightarrow> bpf_inv (fst (start_offcpu_entries es dw))"
    by (induction es arbitrary: dw) (simp_all add: start_offcpu_entries_def split_beta start_inv)
  show "bpf_inv (fst dw) \<Longrightarrow> bpf_inv (fst (start_profile_entries ps dw))"
    by (induction ps arbitrary: dw) (simp_all add: start_profile_entries_def split_beta start_inv)
qed

lemma run_result:
  assumes "Pusher_Run api connects e l (MonitorPusher_new addr iv, w0) = Inr (pu, w)"
  obtains loaded cfg where "Config_Load api (env_fs e) ''conf/diagnose_conf.json'' ConfigManager_new = Inr (loaded, cfg)"
    and "worker_inv pu" and "mp_stub pu = connects addr" and "mp_running pu"
    and "mp_perf pu = apply_perf_config cfg PerfDiagnoser_new"
proof -
  from assms obtain loaded cfg where cfg: "Config_Load api (env_fs e) ''conf/diagnose_conf.json'' ConfigManager_new = Inr (loaded, cfg)"
    by (auto simp: Pusher_Run_def Let_def split_beta)
  obtain w1 where pu: "pu = (snd (pusher_connect connects (MonitorPusher_new addr iv)))
      \<lparr>mp_metrics := Metric_Init e MetricCollector_new, mp_observer := snd (Observe_Init l ObserveCollector_new),
       mp_perf := apply_perf_config cfg PerfDiagnoser_new,
       mp_bpf := fst (start_profile_entries (cfg_profile_entries cfg)
         (start_offcpu_entries (cfg_offcpu_entries cfg) (apply_bpf_config cfg BpfDiagnoser_new, w1))), mp_running := True\<rparr>"
    using assms cfg by (auto simp: Pusher_Run_def Let_def split_beta pusher_connect_def MonitorPusher_new_def split: if_splits)
  have "bpf_inv (mp_bpf pu)" by (simp add: pu start_entries_inv bpf_new_inv)
  moreover have "perf_inv (mp_perf pu)"
    by (simp add: pu perf_inv_def apply_perf_config_def PerfDiagnoser_new_def Let_def split: list.splits)
  ultimately have "worker_inv pu" by (simp add: pu worker_inv_def metric_init_wf)
  moreover have "mp_stub pu = connects addr" by (simp add: pu pusher_connect_def MonitorPusher_new_def)
  ultimately show thesis using that [OF cfg] by (simp add: pu)
qed

lemma perf_config_report:
  "report_ok (apply_perf_config cfg PerfDiagnoser_new) info \<Longrightarrow> de \<in> set (m_diagnose_events info) \<Longrightarrow>
     de_type de \<in> {''offcpu'', ''profile''} \<or> de_type de = ''perf'' \<and> de_process_name de \<in> set (cfg_perf_target_processes cfg) \<and>
       (\<exists>now. de_file_path de = perf_file (cfg_output_dir cfg) (de_process_name de) now) \<and>
       (over (cfg_perf_cpu_threshold_pct cfg) (de_cpu_percent de) \<or> cfg_perf_overflow_duration_s cfg \<le> 0)"
  by (auto simp: report_ok_def list_all_iff diagnose_ok_def perf_report_ok_def apply_perf_config_def Let_def split: list.splits)

section \<open>One report per round\<close>

fun is_stop :: "worker_event \<Rightarrow> bool" where
  "is_stop StopCall = True"
| "is_stop _ = False"

fun is_push :: "worker_event \<Rightarrow> bool" where
  "is_push (PushRound _ _) = True"
| "is_push _ = False"

lemma worker_step_running:
  assumes "worker_step ev (pu, w) = Inr ((pu', w'), sent)"
  shows "mp_running pu' \<longleftrightarrow> mp_running pu \<and> \<not> is_stop ev" and "mp_stub pu' = mp_stub pu"
    and "sent \<noteq> None \<longleftrightarrow> is_push ev \<and> mp_running pu \<and> mp_stub pu"
  using assms
  by (cases ev; auto simp: Pusher_Stop_def push_clear_def Let_def split_beta split: if_splits
      elim!: do_push_result push_collect_result)+

lemma worker_run_count:
  assumes "worker_run evs (pu, w) = Inr (s', sent)"
  shows "length sent = (if mp_running pu \<and> mp_stub pu then length (filter is_push (takeWhile (\<lambda>ev. \<not> is_stop ev) evs)) else 0)"
  using assms
proof (induction evs arbitrary: pu w sent)
  case (Cons ev evs)
  then obtain pu1 w1 s1 s2 where st: "worker_step ev (pu, w) = Inr ((pu1, w1), s1)"
    and rn: "worker_run evs (pu1, w1) = Inr (s', s2)" and sent: "sent = (case s1 of None \<Rightarrow> s2 | Some info \<Rightarrow> info # s2)"
    by auto
  note step = worker_step_running [OF st]
  have stop: "is_stop ev \<Longrightarrow> \<not> is_push ev" by (cases ev) simp_all
  from Cons.IH [OF rn] step stop sent show ?case by (cases s1) (auto split: if_splits)
qed simp

text \<open>
  C8: A worker whose channel connected when \<open>Run\<close> was called sends exactly one report for each round
  of the push loop until \<open>Stop\<close>; one whose channel did not connect never sends any, however long it
  runs, since the connection is not attempted again.
\<close>

theorem one_report_per_round:
  assumes "Pusher_Run api connects e l (MonitorPusher_new addr iv, w0) = Inr s"
    and "worker_run evs s = Inr (s', sent)"
  shows "length sent =
    (if connects addr then length (filter is_push (takeWhile (\<lambda>ev. \<not> is_stop ev) evs)) else 0)"
proof -
  obtain pu w where s: "s = (pu, w)" by fastforce
  have "mp_running pu" "mp_stub pu = connects addr" using run_result [OF assms(1) [unfolded s]] by metis+
  with worker_run_count [OF assms(2) [unfolded s]] show ?thesis by simp
qed

section \<open>The perf events of a report\<close>

definition perf_part :: "MonitorInfo list \<Rightarrow> DiagnoseEvent list" where
  "perf_part sent = filter (\<lambda>de. de_type de = ''perf'') (concat (map m_diagnose_events sent))"

lemma perf_part_simps [simp]: "perf_part [] = []"
  "perf_part (info # sent) = filter (\<lambda>de. de_type de = ''perf'') (m_diagnose_events info) @ perf_part sent"
  by (simp_all add: perf_part_def)

lemma build_info_perf_part:
  assumes "worker_inv pu"
  shows "filter (\<lambda>de. de_type de = ''perf'') (m_diagnose_events (build_info now pu)) = map add_diagnose_event (pf_events (mp_perf pu))"
proof -
  have "filter (\<lambda>de. de_type de = ''perf'') (map add_diagnose_event (bd_events (mp_bpf pu))) = []"
    using assms by (auto simp: worker_inv_def bpf_inv_def list_all_iff bpf_event_ok_def add_diagnose_event_def filter_empty_conv)
  moreover have "filter (\<lambda>de. de_type de = ''perf'') (map add_diagnose_event (pf_events (mp_perf pu))) =
      map add_diagnose_event (pf_events (mp_perf pu))"
    using assms by (auto simp: worker_inv_def perf_inv_def list_all_iff add_diagnose_event_def filter_id_conv)
  ultimately show ?thesis by (simp add: build_info_def Let_def)
qed

section \<open>A run\<close>

definition demo_worker_conf :: json where
  "demo_worker_conf = JObject [(''perf'', JObject [(''cpu_threshold_pct'', JInt 50), (''overflow_duration_s'', JInt 5),
     (''target_processes'', JArray [JString ''nginx''])]), (''paths'', JObject [(''output_dir'', JString ''/d'')])]"

definition demo_worker_api :: "json json_api" where
  "demo_worker_api = json_lib (\<lambda>content. if content = ''conf'' then Some demo_worker_conf else None)"

definition demo_worker_env :: env where
  "demo_worker_env = demo_env\<lparr>env_fs := (\<lambda>path. if path = ''conf/diagnose_conf.json'' then Some ''conf'' else None)\<rparr>"

definition demo_bpf_calls :: libbpf_calls where
  "demo_bpf_calls = \<lparr>proc_open = True, proc_load = True, proc_attach = True, flow_open = True, flow_load = True,
     flow_attach = True, proc_buffer = True, flow_buffer = True\<rparr>"

definition demo_quiet :: observe_env where
  "demo_quiet = \<lparr>oe_process = [], oe_flow = []\<rparr>"

definition demo_started :: "(MonitorPusher \<times> world) res" where
  "demo_started = Pusher_Run demo_worker_api (\<lambda>addr. True) demo_worker_env demo_bpf_calls (MonitorPusher_new ''m:50051'' 10, demo_world [])"

definition demo_events :: "worker_event list" where
  "demo_events = [PushRound demo_worker_env demo_quiet, WorldChange (demo_perf_world 100 []), PerfRound 1000 100,
     WorldChange (demo_perf_world 400 [77]), PerfRound 6000 100, WorldChange (demo_perf_world 420 []), PerfRound 11000 100,
     PushRound demo_worker_env demo_quiet]"

lemma demo_run_events:
  "map_sum (\<lambda>e. e) (\<lambda>(s, sent). map (\<lambda>info. map (\<lambda>de. (de_process_name de, de_cpu_percent de)) (m_diagnose_events info)) sent)
     (bind_res demo_started (worker_run demo_events)) = Inr [[], [(''nginx'', Fin 120)]]"
  by code_simp

lemma demo_run_result:
  obtains s s' sent where "demo_started = Inr s" and "worker_run demo_events s = Inr (s', sent)"
    and "map (\<lambda>info. map (\<lambda>de. (de_process_name de, de_cpu_percent de)) (m_diagnose_events info)) sent = [[], [(''nginx'', Fin 120)]]"
proof (cases demo_started)
  case (Inl x)
  then show thesis using demo_run_events unfolding Inl by simp
next
  case (Inr s)
  show thesis
  proof (cases "worker_run demo_events s")
    case (Inl x)
    then show thesis using demo_run_events unfolding Inr by simp
  next
    case r: (Inr r)
    then have "map (\<lambda>info. map (\<lambda>de. (de_process_name de, de_cpu_percent de)) (m_diagnose_events info)) (snd r) = [[], [(''nginx'', Fin 120)]]"
      using demo_run_events unfolding Inr by (simp add: split_beta)
    with Inr r show thesis by (intro that [of s "fst r" "snd r"]) simp_all
  qed
qed

theorem one_report_per_round_witness:
  "\<exists>s s' sent. demo_started = Inr s \<and> worker_run (demo_events @ [StopCall, PushRound demo_worker_env demo_quiet]) s = Inr (s', sent) \<and> length sent = 2"
proof (rule demo_run_result)
  fix s s' sent
  assume d: "demo_started = Inr s" "worker_run demo_events s = Inr (s', sent)"
  obtain pu w where s': "s' = (pu, w)" by fastforce
  from d(2) obtain s2 b where r: "worker_run (demo_events @ [StopCall, PushRound demo_worker_env demo_quiet]) s = Inr (s2, sent @ b)"
    unfolding worker_run_append by (auto simp: s' Pusher_Stop_def Let_def split_beta)
  from one_report_per_round [OF d(1) [unfolded demo_started_def] this] have "length (sent @ b) = 2" by (simp add: demo_events_def)
  with d r show ?thesis by blast
qed

end
