(* ===== verification/Startup.thy ===== *)
theory Startup
  imports GrpcServer HttpServer MonitorPusher
begin

text \<open>
  The two \<open>main\<close> functions (\<open>src/manager/src/main.cpp\<close>, \<open>src/worker/src/main.cpp\<close>): environment
  variables and command-line arguments, the loops that wait for a signal, and the shutdown. A
  number that \<open>std::stoi\<close> rejects is an exception nobody catches. \<open>getopt_long\<close> belongs to the C
  library; the loop around it is modelled on the sequence of options it returns. The waiting loops
  end when the signal handler has cleared \<open>g_running\<close>; the value each iteration reads is an input.
\<close>

datatype 'a start = Exit int | Proceed 'a

section \<open>The manager\<close>

definition env_or_default :: "(string \<Rightarrow> string option) \<Rightarrow> string \<Rightarrow> string \<Rightarrow> string" where
  "env_or_default getenv name fallback =
     (case getenv name of None \<Rightarrow> fallback | Some v \<Rightarrow> if v = [] then fallback else v)"

text \<open>The loop over \<open>argv\<close>, from index 1.\<close>

function manager_args :: "string list \<Rightarrow> string \<Rightarrow> int \<Rightarrow> (string \<times> int) start res" where
  "manager_args [] grpc_addr http_port = Inr (Proceed (grpc_addr, http_port))"
| "manager_args (arg # rest) grpc_addr http_port =
     (if arg = ''--grpc-addr'' \<and> rest \<noteq> [] then manager_args (tl rest) (hd rest) http_port
      else if arg = ''--http-port'' \<and> rest \<noteq> []
        then bind_res (stoi (hd rest)) (\<lambda>port. manager_args (tl rest) grpc_addr port)
      else if arg = ''--help'' \<or> arg = ''-h'' then Inr (Exit 0)
      else manager_args rest grpc_addr http_port)"
  by pat_completeness auto
termination by (relation "measure (\<lambda>(args, _, _). length args)") (auto simp: less_Suc_eq_le)

definition manager_start :: "(string \<Rightarrow> string option) \<Rightarrow> string list \<Rightarrow> (string \<times> int) start res" where
  "manager_start getenv args =
     (let grpc_addr = env_or_default getenv ''PERFMONITOR_GRPC_ADDR'' ''0.0.0.0:50051''
      in bind_res (stoi (env_or_default getenv ''PERFMONITOR_HTTP_PORT'' ''8080''))
           (\<lambda>http_port. manager_args args grpc_addr http_port))"

text \<open>
  The main loop: \<open>g_running\<close> is the flag as the \<open>n\<close>th test reads it, \<open>reports\<close> the reports the
  gRPC threads handle during the \<open>n\<close>th sleep, \<open>now\<close> the time of the expiry pass after it.
\<close>

definition manager_pass :: "(int \<times> MonitorInfo) list \<Rightarrow> int \<Rightarrow> hosts \<Rightarrow> hosts" where
  "manager_pass reports now hosts = RemoveExpired now 60 (fold (\<lambda>(t, r) hs. fst (SetMonitorInfo t r hs)) reports hosts)"

partial_function (option) manager_loop ::
    "(nat \<Rightarrow> bool) \<Rightarrow> (nat \<Rightarrow> (int \<times> MonitorInfo) list) \<Rightarrow> (nat \<Rightarrow> int) \<Rightarrow> nat \<Rightarrow> hosts \<Rightarrow> hosts option" where
  "manager_loop g_running reports now n hosts =
     (if \<not> g_running n then Some hosts
      else manager_loop g_running reports now (Suc n) (manager_pass (reports n) (now n) hosts))"

record manager_env =
  mg_getenv :: "string \<Rightarrow> string option"
  mg_built :: "string \<Rightarrow> bool"
  mg_listen :: "int \<Rightarrow> listen_calls"
  mg_polls :: "nat \<Rightarrow> poll"
  mg_running :: "nat \<Rightarrow> bool"
  mg_reports :: "nat \<Rightarrow> (int \<times> MonitorInfo) list"
  mg_now :: "nat \<Rightarrow> int"

text \<open>The exit code, with the store at the end; reports only arrive while there is a server.\<close>

definition manager_main :: "manager_env \<Rightarrow> string list \<Rightarrow> (int \<times> hosts) res option" where
  "manager_main e args =
     (case manager_start (mg_getenv e) args of
        Inl x \<Rightarrow> Some (Inl x)
      | Inr (Exit code) \<Rightarrow> Some (Inr (code, []))
      | Inr (Proceed (grpc_addr, http_port)) \<Rightarrow>
          let grpc_srv = Grpc_Start (mg_built e) grpc_addr GrpcServer_new;
              exporter = Exporter_Start (MetricsExporter_new http_port)
          in (case manager_loop (mg_running e) (if gs_server grpc_srv then mg_reports e else (\<lambda>_. [])) (mg_now e) 0 [] of
                None \<Rightarrow> None
              | Some hosts \<Rightarrow>
                  (case Exporter_Stop (mg_listen e http_port) (mg_polls e) exporter of
                     None \<Rightarrow> None
                   | Some exporter \<Rightarrow>
                       (case Exporter_destroy (mg_listen e http_port) (mg_polls e) exporter of
                          None \<Rightarrow> None
                        | Some _ \<Rightarrow> Some (Inr (0, hosts))))))"

section \<open>The worker\<close>

fun worker_options :: "(char \<times> string) list \<Rightarrow> string \<Rightarrow> int \<Rightarrow> (string \<times> int) start res" where
  "worker_options [] manager_addr interval_s = Inr (Proceed (manager_addr, interval_s))"
| "worker_options ((opt, optarg) # opts) manager_addr interval_s =
     (if opt = CHR ''a'' then worker_options opts optarg interval_s
      else if opt = CHR ''i'' then bind_res (stoi optarg) (\<lambda>i. worker_options opts manager_addr i)
      else if opt = CHR ''h'' then Inr (Exit 0)
      else Inr (Exit 1))"

definition worker_start :: "(char \<times> string) list \<Rightarrow> MonitorPusher start res" where
  "worker_start opts =
     bind_res (worker_options opts ''localhost:50051'' 10)
       (\<lambda>st. case st of Exit n \<Rightarrow> Inr (Exit n) | Proceed (addr, i) \<Rightarrow> Inr (Proceed (MonitorPusher_new addr i)))"

text \<open>
  The waiting loop: \<open>evs n\<close> are the steps of the worker's threads during the \<open>n\<close>th second. An exception
  in one of the threads ends the process.
\<close>

partial_function (option) worker_wait ::
    "(nat \<Rightarrow> bool) \<Rightarrow> (nat \<Rightarrow> worker_event list) \<Rightarrow> nat \<Rightarrow> MonitorPusher \<times> world \<Rightarrow> MonitorInfo list \<Rightarrow>
     ((MonitorPusher \<times> world) \<times> MonitorInfo list) res option" where
  "worker_wait g_running evs n s sent =
     (if \<not> g_running n then Some (Inr (s, sent))
      else case worker_run (evs n) s of
             Inl x \<Rightarrow> Some (Inl x)
           | Inr (s', batch) \<Rightarrow> worker_wait g_running evs (Suc n) s' (sent @ batch))"

record 'j worker_env =
  wk_api :: "'j json_api"
  wk_connects :: "string \<Rightarrow> bool"
  wk_env :: env
  wk_bpf :: libbpf_calls
  wk_running :: "nat \<Rightarrow> bool"
  wk_events :: "nat \<Rightarrow> worker_event list"

text \<open>The exit code, the reports sent, and the world after the pusher is destroyed.\<close>

definition worker_main :: "'j worker_env \<Rightarrow> (char \<times> string) list \<Rightarrow> world \<Rightarrow> (int \<times> MonitorInfo list \<times> world) res option" where
  "worker_main e opts w =
     (case worker_start opts of
        Inl x \<Rightarrow> Some (Inl x)
      | Inr (Exit code) \<Rightarrow> Some (Inr (code, [], w))
      | Inr (Proceed pusher) \<Rightarrow>
          (case Pusher_Run (wk_api e) (wk_connects e) (wk_env e) (wk_bpf e) (pusher, w) of
             Inl x \<Rightarrow> Some (Inl x)
           | Inr s \<Rightarrow>
               (case worker_wait (wk_running e) (wk_events e) 0 s [] of
                  None \<Rightarrow> None
                | Some (Inl x) \<Rightarrow> Some (Inl x)
                | Some (Inr (s, sent)) \<Rightarrow> Some (Inr (0, sent, fst (Pusher_destroy (Pusher_Stop s)))))))"

section \<open>What the arguments mean\<close>

text \<open>Options in pairs, none of them empty-handed: the last one of each kind decides.\<close>

fun option_args :: "(bool \<times> string) list \<Rightarrow> string list" where
  "option_args [] = []"
| "option_args ((is_port, v) # os) = (if is_port then ''--http-port'' else ''--grpc-addr'') # v # option_args os"

lemma manager_args_last_wins:
  assumes "\<forall>(is_port, v) \<in> set os. is_port \<longrightarrow> stoi v = Inr (port_of v)"
  shows "manager_args (option_args os) addr port =
    Inr (Proceed (last (addr # map snd (filter (\<lambda>(is_port, v). \<not> is_port) os)),
                  last (port # map (port_of \<circ> snd) (filter fst os))))"
  using assms
proof (induction os arbitrary: addr port)
  case (Cons ov os)
  obtain p v where "ov = (p, v)" by (cases ov)
  with Cons show ?case by auto
qed simp

lemma manager_default_start: "manager_start (\<lambda>_. None) [] = Inr (Proceed (''0.0.0.0:50051'', 8080))"
  by (simp add: manager_start_def env_or_default_def) code_simp

lemma manager_bad_port_raises:
  "stoi v = Inl x \<Longrightarrow> manager_args (''--http-port'' # v # args) addr port = Inl x"
  by simp

text \<open>A trailing option without its value is ignored, like every unknown argument.\<close>

lemma manager_args_missing_value:
  "arg \<in> {''--grpc-addr'', ''--http-port''} \<Longrightarrow> manager_args [arg] addr port = Inr (Proceed (addr, port))"
  by auto

section \<open>The manager ends\<close>

lemma manager_pass_run:
  "manager_pass reports now hosts = mgr_run (map (\<lambda>(t, r). Report t r) reports @ [Tick now]) hosts"
  by (induction reports arbitrary: hosts) (auto simp: manager_pass_def mgr_run_def)

definition manager_history :: "(nat \<Rightarrow> (int \<times> MonitorInfo) list) \<Rightarrow> (nat \<Rightarrow> int) \<Rightarrow> nat \<Rightarrow> mgr_event list" where
  "manager_history reports now n = concat (map (\<lambda>k. map (\<lambda>(t, r). Report t r) (reports k) @ [Tick (now k)]) [0..<n])"

lemma mgr_run_append: "mgr_run (xs @ ys) hosts = mgr_run ys (mgr_run xs hosts)"
  by (simp add: mgr_run_def)

lemma manager_loop_from:
  assumes "\<forall>k. n \<le> k \<and> k < n + d \<longrightarrow> g k" and "\<not> g (n + d)"
  shows "manager_loop g reports now n hosts =
    Some (mgr_run (concat (map (\<lambda>k. map (\<lambda>(t, r). Report t r) (reports k) @ [Tick (now k)]) [n..<n + d])) hosts)"
  using assms
proof (induction d arbitrary: n hosts)
  case 0
  then show ?case by (simp add: manager_loop.simps mgr_run_def)
next
  case (Suc d)
  then have "manager_loop g reports now n hosts = manager_loop g reports now (Suc n) (manager_pass (reports n) (now n) hosts)"
    by (simp add: manager_loop.simps [of _ _ _ n])
  also have "\<dots> = Some (mgr_run (concat (map (\<lambda>k. map (\<lambda>(t, r). Report t r) (reports k) @ [Tick (now k)]) [Suc n..<Suc n + d]))
      (manager_pass (reports n) (now n) hosts))"
    using Suc.prems by (intro Suc.IH) simp_all
  also have "[n..<n + Suc d] = n # [Suc n..<Suc n + d]" by (simp add: upt_conv_Cons)
  ultimately show ?case by (simp only: list.map concat.simps mgr_run_append manager_pass_run)
qed

text \<open>
  C9: Once a signal has cleared the flag at the \<open>n\<close>th test, the manager returns 0 after exactly \<open>n\<close>
  expiry passes, provided its HTTP thread ends; its store is then the result of the reports and
  passes in their order, or of the passes alone when the gRPC server could not be started.
\<close>

theorem manager_main_ends:
  assumes "manager_start (mg_getenv e) args = Inr (Proceed (addr, port))"
    and "\<not> mg_running e n" and "\<forall>k < n. mg_running e k" and "serve_loop (mg_listen e port) (mg_polls e) \<noteq> None"
  shows "manager_main e args =
    Some (Inr (0, mgr_run (manager_history (if mg_built e addr then mg_reports e else (\<lambda>_. [])) (mg_now e) n) []))"
proof -
  have "manager_loop (mg_running e) reports (mg_now e) 0 [] = Some (mgr_run (manager_history reports (mg_now e) n) [])" for reports
    using manager_loop_from [of 0 n "mg_running e" reports "mg_now e" "[]"] assms(2,3) by (simp add: manager_history_def)
  with assms(1,4) show ?thesis
    by (auto simp: manager_main_def Let_def Grpc_Start_def Exporter_Stop_def Exporter_destroy_def Exporter_Start_def)
qed

definition demo_manager :: manager_env where
  "demo_manager = \<lparr>mg_getenv = (\<lambda>_. None), mg_built = (\<lambda>_. True), mg_listen = (\<lambda>_. demo_listen), mg_polls = demo_polls,
     mg_running = (\<lambda>n. n < 2), mg_reports = (\<lambda>n. if n = 0 then [(5, demo_report ''a'')] else []), mg_now = (\<lambda>n. 10 + 10 * int n)\<rparr>"

theorem manager_main_ends_witness:
  "\<exists>hosts. manager_main demo_manager [] = Some (Inr (0, hosts)) \<and> map fst hosts = [''a'']"
proof -
  have start: "manager_start (mg_getenv demo_manager) [] = Inr (Proceed (''0.0.0.0:50051'', 8080))"
    by (simp add: demo_manager_def manager_default_start)
  have ends: "serve_loop (mg_listen demo_manager 8080) (mg_polls demo_manager) \<noteq> None"
    using serve_loop_ends [OF demo_polls_end] by (simp add: demo_manager_def)
  have flags: "\<not> mg_running demo_manager 2" "\<forall>k < 2. mg_running demo_manager k" "mg_built demo_manager = (\<lambda>_. True)"
    by (simp_all add: demo_manager_def)
  have m: "manager_main demo_manager [] = Some (Inr (0, mgr_run (manager_history (mg_reports demo_manager) (mg_now demo_manager) 2) []))"
    using manager_main_ends [OF start flags(1,2) ends] unfolding flags(3) by (simp only: if_True)
  have f: "map fst (mgr_run (manager_history (mg_reports demo_manager) (mg_now demo_manager) 2) []) = [''a'']"
    by code_simp
  show ?thesis by (rule exI, rule conjI, rule m, rule f)
qed

section \<open>The worker ends\<close>

lemma worker_wait_from:
  assumes "\<forall>k. n \<le> k \<and> k < n + d \<longrightarrow> g k" and "\<not> g (n + d)"
    and "worker_run (concat (map evs [n..<n + d])) s = Inr (s', out)"
  shows "worker_wait g evs n s sent = Some (Inr (s', sent @ out))"
  using assms
proof (induction d arbitrary: n s sent out)
  case 0
  then show ?case by (simp add: worker_wait.simps)
next
  case (Suc d)
  have "[n..<n + Suc d] = n # [Suc n..<Suc n + d]" by (simp add: upt_conv_Cons)
  with Suc.prems(3) have "worker_run (evs n @ concat (map evs [Suc n..<Suc n + d])) s = Inr (s', out)"
    by (simp only: list.map concat.simps)
  then obtain s1 a b where r: "worker_run (evs n) s = Inr (s1, a)"
    "worker_run (concat (map evs [Suc n..<Suc n + d])) s1 = Inr (s', b)" "out = a @ b"
    unfolding worker_run_append by (auto simp del: upt_Suc)
  have "worker_wait g evs (Suc n) s1 (sent @ a) = Some (Inr (s', (sent @ a) @ b))"
    using Suc.prems r(2) by (intro Suc.IH) simp_all
  with Suc.prems(1) r show ?case by (simp add: worker_wait.simps [of _ _ n])
qed

text \<open>The processes the diagnosers hold.\<close>

definition held_pids :: "MonitorPusher \<Rightarrow> int set" where
  "held_pids pu = set (runner_pids (bd_runners (mp_bpf pu))) \<union> {p. p = runner_pid (pf_runner (mp_perf pu)) \<and> 0 < p}"

lemma terms_stop: "set (os_terms (snd (Runner_Stop r s))) = set (os_terms s) \<union> {p. p = runner_pid r \<and> 0 < p}"
  using terms_destroy [of r s] by (auto simp: Runner_destroy_def)

lemma destroy_signals_tools: "held_pids pu \<subseteq> set (os_terms (w_os (fst (Pusher_destroy (Pusher_Stop (pu, w))))))"
  by (auto simp: held_pids_def Pusher_destroy_def Pusher_Stop_def Perf_destroy_def Bpf_destroy_def Perf_Stop_def Bpf_Reset_def
      Let_def split_beta terms_destroy_all terms_destroy terms_stop)

text \<open>
  C10: Once a signal has cleared the flag at the \<open>n\<close>th test, and if no thread raised an exception, the
  worker returns 0; it has sent exactly the reports of the steps its threads made in these \<open>n\<close>
  seconds, and every tool and recording it still held has been sent SIGTERM, although \<open>Stop\<close> itself
  ends none of the tools.
\<close>

theorem worker_main_ends:
  assumes "worker_start opts = Inr (Proceed pusher)"
    and "Pusher_Run (wk_api e) (wk_connects e) (wk_env e) (wk_bpf e) (pusher, w) = Inr s"
    and "\<not> wk_running e n" and "\<forall>k < n. wk_running e k"
    and "worker_run (concat (map (wk_events e) [0..<n])) s = Inr ((pu, w1), sent)"
  shows "\<exists>w2. worker_main e opts w = Some (Inr (0, sent, w2)) \<and> held_pids pu \<subseteq> set (os_terms (w_os w2))"
proof -
  have "worker_wait (wk_running e) (wk_events e) 0 s [] = Some (Inr ((pu, w1), [] @ sent))"
    using assms(3-5) by (intro worker_wait_from [where d = n]) simp_all
  with assms(1,2) destroy_signals_tools [of pu w1] show ?thesis by (simp add: worker_main_def)
qed

definition demo_worker :: "json worker_env" where
  "demo_worker = \<lparr>wk_api = demo_worker_api, wk_connects = (\<lambda>_. True), wk_env = demo_worker_env, wk_bpf = demo_bpf_calls,
     wk_running = (\<lambda>n. n < 1), wk_events = (\<lambda>_. demo_events)\<rparr>"

theorem worker_main_ends_witness:
  "\<exists>sent w2. worker_main demo_worker [(CHR ''a'', ''m:50051'')] (demo_world []) = Some (Inr (0, sent, w2)) \<and> length sent = 2"
proof (rule demo_run_result)
  fix s s' sent
  assume d: "demo_started = Inr s" "worker_run demo_events s = Inr (s', sent)"
    "map (\<lambda>info. map (\<lambda>de. (de_process_name de, de_cpu_percent de)) (m_diagnose_events info)) sent = [[], [(''nginx'', Fin 120)]]"
  obtain pu w1 where s': "s' = (pu, w1)" by fastforce
  have start: "worker_start [(CHR ''a'', ''m:50051'')] = Inr (Proceed (MonitorPusher_new ''m:50051'' 10))"
    by (simp add: worker_start_def)
  have run: "Pusher_Run (wk_api demo_worker) (wk_connects demo_worker) (wk_env demo_worker) (wk_bpf demo_worker)
      (MonitorPusher_new ''m:50051'' 10, demo_world []) = Inr s"
    using d(1) by (simp add: demo_worker_def demo_started_def)
  have flags: "\<not> wk_running demo_worker 1" "\<forall>k < 1. wk_running demo_worker k"
    and evs: "worker_run (concat (map (wk_events demo_worker) [0..<1])) s = Inr ((pu, w1), sent)"
    using d(2) s' by (simp_all add: demo_worker_def)
  have len: "length sent = 2" using arg_cong [OF d(3), of length] by simp
  from worker_main_ends [OF start run flags evs] obtain w2 where
    w2: "worker_main demo_worker [(CHR ''a'', ''m:50051'')] (demo_world []) = Some (Inr (0, sent, w2))" by blast
  show ?thesis by (rule exI, rule exI, rule conjI, rule w2, rule len)
qed

end
