(* ===== verification/WorkerThreads.thy ===== *)
theory WorkerThreads
  imports MonitorPusher
begin

text \<open>
  The push loop and the perf thread at the granularity that matters for the events they share
  (\<open>src/worker/src/rpc/monitor_pusher.cpp\<close>, lines 209 to 218). The push thread copies the
  events of the perf diagnoser into the message and clears them afterwards, with no lock; an
  iteration of the perf thread may fall between the two. Each of the three is one step here; that
  the unsynchronised accesses are also a data race is outside the model.
\<close>

section \<open>Steps\<close>

record fine =
  fi_pusher :: MonitorPusher
  fi_world :: world
  fi_copied :: "MonitorInfo option"

definition fine_start :: "MonitorPusher \<times> world \<Rightarrow> fine" where
  "fine_start s = \<lparr>fi_pusher = fst s, fi_world = snd s, fi_copied = None\<rparr>"

datatype fine_label = Copy | Clear "MonitorInfo option" | PerfIter "CppDiagnoseEvent list" | Change

text \<open>
  The calls of \<open>Reset\<close> on the observer and on the BPF diagnoser come earlier in the code, right after
  their loops; only the push thread touches these two, so they are left to \<open>do_clear\<close>. Sending belongs to
  it too: the report it sends is the one copied.
\<close>

definition do_copy :: "env \<Rightarrow> observe_env \<Rightarrow> fine \<Rightarrow> fine res" where
  "do_copy e oe s =
     bind_res (push_collect e oe (fi_pusher s, fi_world s))
       (\<lambda>(pu, w). Inr \<lparr>fi_pusher = pu, fi_world = w, fi_copied = Some (build_info (w_time w) pu)\<rparr>)"

definition do_clear :: "fine \<Rightarrow> fine" where
  "do_clear s = s\<lparr>fi_pusher := push_clear (fi_pusher s), fi_copied := None\<rparr>"

definition do_perf :: "u64 \<Rightarrow> int \<Rightarrow> fine \<Rightarrow> (fine \<times> CppDiagnoseEvent list) res" where
  "do_perf now hz s =
     bind_res (worker_iter now hz (mp_perf (fi_pusher s)) (fi_world s))
       (\<lambda>(p, w). Inr (s\<lparr>fi_pusher := (fi_pusher s)\<lparr>mp_perf := p\<rparr>, fi_world := w\<rparr>,
                      drop (length (pf_events (mp_perf (fi_pusher s)))) (pf_events p)))"

inductive fine_step :: "fine \<Rightarrow> fine_label \<Rightarrow> fine \<Rightarrow> bool" where
  copy: "fi_copied s = None \<Longrightarrow> mp_running (fi_pusher s) \<Longrightarrow> do_copy e oe s = Inr s' \<Longrightarrow> fine_step s Copy s'"
| clear: "fi_copied s = Some info \<Longrightarrow>
    fine_step s (Clear (if mp_stub (fi_pusher s) then Some info else None)) (do_clear s)"
| perf: "pf_running (mp_perf (fi_pusher s)) \<Longrightarrow> do_perf now hz s = Inr (s', new) \<Longrightarrow> fine_step s (PerfIter new) s'"
| change: "fine_step s Change (s\<lparr>fi_world := w\<rparr>)"

inductive_cases copyE: "fine_step s Copy s'"
inductive_cases clearE: "fine_step s (Clear sent) s'"
inductive_cases perfE: "fine_step s (PerfIter new) s'"
inductive_cases changeE: "fine_step s Change s'"

inductive fine_run :: "fine \<Rightarrow> fine_label list \<Rightarrow> fine \<Rightarrow> bool" for s where
  nil: "fine_run s [] s"
| snoc: "fine_run s ls s' \<Longrightarrow> fine_step s' l s'' \<Longrightarrow> fine_run s (ls @ [l]) s''"

section \<open>Where the events go\<close>

text \<open>Whether copying has happened and clearing has not, after a sequence of labels.\<close>

definition in_window :: "fine_label list \<Rightarrow> bool" where
  "in_window ls = fold (\<lambda>l b. case l of Copy \<Rightarrow> True | Clear _ \<Rightarrow> False | _ \<Rightarrow> b) ls False"

text \<open>The events the perf thread produced outside and inside such windows, and the reports sent.\<close>

fun produced :: "bool \<Rightarrow> bool \<Rightarrow> fine_label list \<Rightarrow> CppDiagnoseEvent list" where
  "produced inside b [] = []"
| "produced inside b (Copy # ls) = produced inside True ls"
| "produced inside b (Clear _ # ls) = produced inside False ls"
| "produced inside b (PerfIter new # ls) = (if b = inside then new else []) @ produced inside b ls"
| "produced inside b (Change # ls) = produced inside b ls"

definition outside_window :: "fine_label list \<Rightarrow> CppDiagnoseEvent list" where
  "outside_window ls = produced False False ls"

definition inside_window :: "fine_label list \<Rightarrow> CppDiagnoseEvent list" where
  "inside_window ls = produced True False ls"

fun sent_reports :: "fine_label list \<Rightarrow> MonitorInfo list" where
  "sent_reports [] = []"
| "sent_reports (Clear (Some info) # ls) = info # sent_reports ls"
| "sent_reports (_ # ls) = sent_reports ls"

lemma in_window_snoc [simp]:
  "\<not> in_window []"
  "in_window (ls @ [Copy])" "\<not> in_window (ls @ [Clear sent])"
  "in_window (ls @ [PerfIter new]) = in_window ls" "in_window (ls @ [Change]) = in_window ls"
  by (simp_all add: in_window_def)

lemma produced_append:
  "produced i b (xs @ ys) = produced i b xs @
     produced i (fold (\<lambda>l b. case l of Copy \<Rightarrow> True | Clear _ \<Rightarrow> False | _ \<Rightarrow> b) xs b) ys"
  by (induction i b xs rule: produced.induct) simp_all

lemma outside_snoc [simp]:
  "outside_window (ls @ [l]) = outside_window ls @ (case l of PerfIter new \<Rightarrow> if in_window ls then [] else new | _ \<Rightarrow> [])"
  "outside_window [] = []"
  by (cases l; simp add: outside_window_def produced_append in_window_def)+

lemma sent_append [simp]: "sent_reports (xs @ ys) = sent_reports xs @ sent_reports ys"
  by (induction xs rule: sent_reports.induct) simp_all

definition fine_inv :: "fine_label list \<Rightarrow> fine \<Rightarrow> bool" where
  "fine_inv ls s \<longleftrightarrow> worker_inv (fi_pusher s) \<and> mp_stub (fi_pusher s) \<and> (in_window ls \<longleftrightarrow> fi_copied s \<noteq> None) \<and>
     map add_diagnose_event (outside_window ls) = perf_part (sent_reports ls) @
       (case fi_copied s of None \<Rightarrow> map add_diagnose_event (pf_events (mp_perf (fi_pusher s))) | Some info \<Rightarrow> perf_part [info])"

lemma fine_inv_copy:
  assumes "fine_inv ls s" and "fi_copied s = None" and "do_copy e oe s = Inr s'"
  shows "fine_inv (ls @ [Copy]) s'"
proof -
  obtain pu w where c: "push_collect e oe (fi_pusher s, fi_world s) = Inr (pu, w)"
    and s': "s' = \<lparr>fi_pusher = pu, fi_world = w, fi_copied = Some (build_info (w_time w) pu)\<rparr>"
    using assms(3) by (auto simp: do_copy_def)
  have inv: "worker_inv pu" "mp_stub pu"
    using push_collect_inv [OF _ c] assms(1) by (simp_all add: fine_inv_def kept_setup_def)
  have "pf_events (mp_perf pu) = pf_events (mp_perf (fi_pusher s))"
    using c by (rule push_collect_result) (simp add: Perf_Collect_def)
  with inv assms(1,2) show ?thesis by (simp add: fine_inv_def s' build_info_perf_part)
qed

lemma fine_inv_clear:
  assumes "fine_inv ls s" and "fi_copied s = Some info"
  shows "fine_inv (ls @ [Clear (Some info)]) (do_clear s)"
  using assms push_clear_inv [of "fi_pusher s"]
  by (simp add: fine_inv_def do_clear_def kept_setup_def) (simp add: push_clear_def Perf_Reset_def perf_part_def)

lemma fine_inv_perf:
  assumes "fine_inv ls s" and "do_perf now hz s = Inr (s', new)"
  shows "fine_inv (ls @ [PerfIter new]) s'"
proof -
  let ?old = "pf_events (mp_perf (fi_pusher s))"
  obtain p w where i: "worker_iter now hz (mp_perf (fi_pusher s)) (fi_world s) = Inr (p, w)"
    and s': "s' = s\<lparr>fi_pusher := (fi_pusher s)\<lparr>mp_perf := p\<rparr>, fi_world := w\<rparr>" "new = drop (length ?old) (pf_events p)"
    using assms(2) by (auto simp: do_perf_def)
  from worker_iter_events [OF i] have "pf_events p = ?old @ new" by (auto simp: s'(2))
  moreover have "worker_inv (fi_pusher s')"
    using worker_iter_inv [OF _ i] assms(1) by (simp add: s' fine_inv_def worker_inv_def)
  ultimately show ?thesis using assms(1) by (simp add: fine_inv_def s'(1) split: option.splits)
qed

lemma fine_inv_step:
  assumes "fine_inv ls s" and "fine_step s l s'"
  shows "fine_inv (ls @ [l]) s'"
proof (cases l)
  case Copy
  with assms show ?thesis by (auto elim!: copyE intro: fine_inv_copy)
next
  case (Clear sent)
  moreover have "mp_stub (fi_pusher s)" using assms(1) by (simp add: fine_inv_def)
  ultimately show ?thesis using assms by (auto elim!: clearE intro: fine_inv_clear)
next
  case (PerfIter new)
  with assms show ?thesis by (auto elim!: perfE intro: fine_inv_perf)
next
  case Change
  with assms show ?thesis by (auto elim!: changeE simp: fine_inv_def)
qed

lemma fine_inv_run: "fine_run s ls s' \<Longrightarrow> fine_inv [] s \<Longrightarrow> fine_inv ls s'"
  by (induction rule: fine_run.induct) (auto intro: fine_inv_step)

lemma fine_start_inv:
  assumes "Pusher_Run api connects e l (MonitorPusher_new addr iv, w0) = Inr s" and "connects addr"
  shows "fine_inv [] (fine_start s)"
proof -
  obtain pu w where s: "s = (pu, w)" by fastforce
  from run_result [OF assms(1) [unfolded s]] obtain cfg :: "'a ConfigManager" where
    pu: "worker_inv pu" "mp_stub pu = connects addr" "mp_perf pu = apply_perf_config cfg PerfDiagnoser_new" by metis
  have "pf_events (mp_perf pu) = []" by (simp add: pu(3) apply_perf_config_def PerfDiagnoser_new_def Let_def split: list.splits)
  with pu assms(2) show ?thesis by (simp add: fine_inv_def fine_start_def s)
qed

text \<open>
  C6: With the push loop and the perf thread interleaved freely, the perf events in the reports a
  connected worker has sent, followed by those it holds, are exactly those the perf thread
  produced outside the gap between copying and clearing, in order. The events produced inside
  the gap are in no report.
\<close>

theorem perf_events_accounted:
  assumes "Pusher_Run api connects e l (MonitorPusher_new addr iv, w0) = Inr s" and "connects addr"
    and "fine_run (fine_start s) ls t" and "fi_copied t = None"
  shows "perf_part (sent_reports ls) @ map add_diagnose_event (pf_events (mp_perf (fi_pusher t))) =
    map add_diagnose_event (outside_window ls)"
  using fine_inv_run [OF assms(3) fine_start_inv [OF assms(1,2)]] assms(4) by (simp add: fine_inv_def)

section \<open>What the reports say\<close>

text \<open>Every report, copied or sent, is well formed for the configuration \<open>p\<close> and carries the name of the host \<open>hi\<close>.\<close>

definition good_report :: "PerfDiagnoser \<Rightarrow> HostInfoMonitor \<Rightarrow> MonitorInfo \<Rightarrow> bool" where
  "good_report p hi info \<longleftrightarrow> report_ok p info \<and> m_hostname info = hostname hi"

definition fine_ok :: "PerfDiagnoser \<Rightarrow> HostInfoMonitor \<Rightarrow> fine_label list \<Rightarrow> fine \<Rightarrow> bool" where
  "fine_ok p hi ls s \<longleftrightarrow> worker_inv (fi_pusher s) \<and> same_perf_config p (mp_perf (fi_pusher s)) \<and>
     mc_host (mp_metrics (fi_pusher s)) = hi \<and> list_all (good_report p hi) (sent_reports ls) \<and>
     (case fi_copied s of None \<Rightarrow> True | Some info \<Rightarrow> good_report p hi info)"

lemma same_perf_config_trans: "same_perf_config a b \<Longrightarrow> same_perf_config b c \<Longrightarrow> same_perf_config a c"
  by (simp add: same_perf_config_def)

lemma fine_ok_copy:
  assumes "fine_ok p hi ls s" and "do_copy e oe s = Inr s'"
  shows "fine_ok p hi (ls @ [Copy]) s'"
proof -
  obtain pu w where c: "push_collect e oe (fi_pusher s, fi_world s) = Inr (pu, w)"
    and s': "s' = \<lparr>fi_pusher = pu, fi_world = w, fi_copied = Some (build_info (w_time w) pu)\<rparr>"
    using assms(2) by (auto simp: do_copy_def)
  have inv: "worker_inv pu" "same_perf_config p (mp_perf pu)"
    using push_collect_inv [OF _ c] assms(1) same_perf_config_trans by (auto simp: fine_ok_def kept_setup_def)
  have host: "mc_host (mp_metrics pu) = hi"
    using c assms(1) by (auto simp: fine_ok_def metric_collect_parts(1) elim!: push_collect_result)
  then have "good_report p hi (build_info (w_time w) pu)"
    using build_info_ok [OF inv(1)] report_ok_config [OF inv(2)] by (simp add: good_report_def build_info_def Let_def)
  with inv host assms(1) show ?thesis by (simp add: fine_ok_def s')
qed

lemma fine_ok_clear:
  assumes "fine_ok p hi ls s" and "fi_copied s = Some info"
  shows "fine_ok p hi (ls @ [Clear (if b then Some info else None)]) (do_clear s)"
proof -
  have "worker_inv (push_clear (fi_pusher s))" "same_perf_config p (mp_perf (push_clear (fi_pusher s)))"
    using push_clear_inv [of "fi_pusher s"] assms(1) same_perf_config_trans by (auto simp: fine_ok_def kept_setup_def)
  moreover have "mp_metrics (push_clear (fi_pusher s)) = mp_metrics (fi_pusher s)" by (simp add: push_clear_def)
  ultimately show ?thesis using assms by (simp add: fine_ok_def do_clear_def)
qed

lemma fine_ok_perf:
  assumes "fine_ok p hi ls s" and "do_perf now hz s = Inr (s', new)"
  shows "fine_ok p hi (ls @ [PerfIter new]) s'"
proof -
  obtain q w where i: "worker_iter now hz (mp_perf (fi_pusher s)) (fi_world s) = Inr (q, w)"
    and s': "s' = s\<lparr>fi_pusher := (fi_pusher s)\<lparr>mp_perf := q\<rparr>, fi_world := w\<rparr>"
    using assms(2) by (auto simp: do_perf_def)
  have "perf_inv q" "same_perf_config p q"
    using worker_iter_inv [OF _ i] assms(1) same_perf_config_trans by (auto simp: fine_ok_def worker_inv_def)
  with assms(1) show ?thesis by (simp add: fine_ok_def worker_inv_def s' split: option.splits)
qed

lemma fine_ok_step:
  assumes "fine_ok p hi ls s" and "fine_step s l s'"
  shows "fine_ok p hi (ls @ [l]) s'"
  using assms(2,1)
proof (cases rule: fine_step.cases)
  case (copy e oe)
  with assms(1) show ?thesis by (simp add: fine_ok_copy)
next
  case (clear info)
  with assms(1) show ?thesis by (simp add: fine_ok_clear)
next
  case (perf now hz new)
  with assms(1) show ?thesis by (simp add: fine_ok_perf)
next
  case (change w)
  with assms(1) show ?thesis by (simp add: fine_ok_def split: option.splits)
qed

lemma fine_ok_run: "fine_run s ls s' \<Longrightarrow> fine_ok p hi [] s \<Longrightarrow> fine_ok p hi ls s'"
  by (induction rule: fine_run.induct) (auto intro: fine_ok_step)

lemma fine_reports_good:
  assumes "Pusher_Run api connects e l (MonitorPusher_new addr iv, w0) = Inr s" and "fine_run (fine_start s) ls t"
  shows "\<exists>loaded cfg. Config_Load api (env_fs e) ''conf/diagnose_conf.json'' ConfigManager_new = Inr (loaded, cfg) \<and>
    list_all (good_report (apply_perf_config cfg PerfDiagnoser_new) (mc_host (mp_metrics (fst s)))) (sent_reports ls)"
proof -
  obtain pu w where s: "s = (pu, w)" by fastforce
  from run_result [OF assms(1) [unfolded s]] obtain loaded cfg where
    cfg: "Config_Load api (env_fs e) ''conf/diagnose_conf.json'' ConfigManager_new = Inr (loaded, cfg)"
    and inv: "worker_inv pu" and perf: "mp_perf pu = apply_perf_config cfg PerfDiagnoser_new" by metis
  have "fine_ok (mp_perf pu) (mc_host (mp_metrics pu)) [] (fine_start s)"
    using inv by (simp add: fine_ok_def fine_start_def s same_perf_config_def)
  from fine_ok_run [OF assms(2) this] cfg show ?thesis by (auto simp: fine_ok_def perf s)
qed

text \<open>
  C5: Every report a worker sends, in any interleaving of the push loop and the perf thread after \<open>Run\<close>,
  carries an address, at least one core, only binary64 values and no loopback interface. Each
  diagnose event in it is from the off-CPU or profile tool, or is a perf event of a process the
  configuration file names, for a file in the configured directory; when the configured duration
  is positive, its CPU percentage is at or above the configured threshold, and nothing is claimed of it
  otherwise.
\<close>

theorem worker_reports_justified:
  assumes "Pusher_Run api connects e l (MonitorPusher_new addr iv, w0) = Inr s"
    and "fine_run (fine_start s) ls t" and "info \<in> set (sent_reports ls)"
  shows "\<exists>loaded cfg. Config_Load api (env_fs e) ''conf/diagnose_conf.json'' ConfigManager_new = Inr (loaded, cfg) \<and>
    m_ip info \<noteq> [] \<and> 1 \<le> sint (cl_nr_cores (get_cpu_load info)) \<and> list_all is_double (report_values info) \<and>
    list_all (\<lambda>n. ni_iface n \<noteq> ''lo'') (m_nets info) \<and>
    (\<forall>de \<in> set (m_diagnose_events info). de_type de \<in> {''offcpu'', ''profile''} \<or>
       de_type de = ''perf'' \<and> de_process_name de \<in> set (cfg_perf_target_processes cfg) \<and>
       (\<exists>now. de_file_path de = perf_file (cfg_output_dir cfg) (de_process_name de) now) \<and>
       (over (cfg_perf_cpu_threshold_pct cfg) (de_cpu_percent de) \<or> cfg_perf_overflow_duration_s cfg \<le> 0))"
proof -
  from fine_reports_good [OF assms(1,2)] obtain loaded cfg where
    cfg: "Config_Load api (env_fs e) ''conf/diagnose_conf.json'' ConfigManager_new = Inr (loaded, cfg)"
    and ok: "report_ok (apply_perf_config cfg PerfDiagnoser_new) info"
    using assms(3) by (auto simp: list_all_iff good_report_def)
  then have "m_ip info \<noteq> [] \<and> 1 \<le> sint (cl_nr_cores (get_cpu_load info)) \<and> list_all is_double (report_values info) \<and>
    list_all (\<lambda>n. ni_iface n \<noteq> ''lo'') (m_nets info)" by (simp add: report_ok_def)
  with cfg perf_config_report [OF ok] show ?thesis by blast
qed

section \<open>Executing an interleaving\<close>

datatype fine_action = DoCopy env observe_env | DoClear | DoPerf u64 int | DoChange world

fun fine_exec :: "fine_action list \<Rightarrow> fine \<Rightarrow> fine_label list \<Rightarrow> (fine \<times> fine_label list) option" where
  "fine_exec [] s ls = Some (s, ls)"
| "fine_exec (DoCopy e oe # as) s ls =
     (if fi_copied s = None \<and> mp_running (fi_pusher s)
      then (case do_copy e oe s of Inl _ \<Rightarrow> None | Inr s' \<Rightarrow> fine_exec as s' (ls @ [Copy])) else None)"
| "fine_exec (DoClear # as) s ls =
     (case fi_copied s of None \<Rightarrow> None
      | Some info \<Rightarrow> fine_exec as (do_clear s) (ls @ [Clear (if mp_stub (fi_pusher s) then Some info else None)]))"
| "fine_exec (DoPerf now hz # as) s ls =
     (if pf_running (mp_perf (fi_pusher s))
      then (case do_perf now hz s of Inl _ \<Rightarrow> None | Inr (s', new) \<Rightarrow> fine_exec as s' (ls @ [PerfIter new])) else None)"
| "fine_exec (DoChange w # as) s ls = fine_exec as (s\<lparr>fi_world := w\<rparr>) (ls @ [Change])"

lemma fine_exec_run: "fine_exec as s ls = Some (t, out) \<Longrightarrow> fine_run s0 ls s \<Longrightarrow> fine_run s0 out t"
  by (induction as s ls rule: fine_exec.induct)
     (auto split: if_splits sum.splits option.splits prod.splits dest: fine_run.snoc [OF _ fine_step.change]
        fine_run.snoc [OF _ fine_step.copy] fine_run.snoc [OF _ fine_step.clear] fine_run.snoc [OF _ fine_step.perf])

text \<open>
  A run that produces one perf event, with the last iteration of the perf thread before the second
  report or between its copying and its clearing.
\<close>

definition demo_actions :: "bool \<Rightarrow> fine_action list" where
  "demo_actions gap = [DoCopy demo_worker_env demo_quiet, DoClear, DoChange (demo_perf_world 100 []), DoPerf 1000 100,
     DoChange (demo_perf_world 400 [77]), DoPerf 6000 100, DoChange (demo_perf_world 420 [])] @
     (if gap then [DoCopy demo_worker_env demo_quiet, DoPerf 11000 100] else [DoPerf 11000 100, DoCopy demo_worker_env demo_quiet]) @
     [DoClear]"

definition demo_outcome :: "bool \<Rightarrow> exn + (bool \<times> nat \<times> string list \<times> string list \<times> CppDiagnoseEvent list) option" where
  "demo_outcome gap = map_sum (\<lambda>e. e) (\<lambda>s. map_option (\<lambda>(t, ls).
       (fi_copied t = None, length (concat (map m_diagnose_events (sent_reports ls))),
        map de_process_name (perf_part (sent_reports ls)), map ev_process_name (inside_window ls),
        pf_events (mp_perf (fi_pusher t)))) (fine_exec (demo_actions gap) (fine_start s) [])) demo_started"

lemma demo_outcome_sent: "demo_outcome False = Inr (Some (True, 1, [''nginx''], [], []))"
  by code_simp

lemma demo_outcome_lost: "demo_outcome True = Inr (Some (True, 0, [], [''nginx''], []))"
  by code_simp

lemma demo_outcome_run:
  assumes "demo_outcome gap = Inr (Some (True, n, sent, inside, held))"
  obtains s t ls where "demo_started = Inr s" and "fine_run (fine_start s) ls t" and "fi_copied t = None"
    and "length (concat (map m_diagnose_events (sent_reports ls))) = n"
    and "map de_process_name (perf_part (sent_reports ls)) = sent" and "map ev_process_name (inside_window ls) = inside"
    and "pf_events (mp_perf (fi_pusher t)) = held"
proof (cases demo_started)
  case (Inl x)
  then show thesis using assms unfolding demo_outcome_def Inl by simp
next
  case (Inr s)
  show thesis
  proof (cases "fine_exec (demo_actions gap) (fine_start s) []")
    case None
    then show thesis using assms unfolding demo_outcome_def Inr by simp
  next
    case (Some r)
    obtain t ls where r: "r = (t, ls)" by fastforce
    have "fine_run (fine_start s) ls t" by (rule fine_exec_run [OF Some [unfolded r] fine_run.nil])
    moreover have "fi_copied t = None" "length (concat (map m_diagnose_events (sent_reports ls))) = n"
      "map de_process_name (perf_part (sent_reports ls)) = sent"
      "map ev_process_name (inside_window ls) = inside" "pf_events (mp_perf (fi_pusher t)) = held"
      using assms unfolding demo_outcome_def Inr by (simp_all add: Some r)
    ultimately show thesis using Inr by (intro that)
  qed
qed

text \<open>In the run that sends the event, it is the only one in all reports.\<close>

lemma demo_sent_run:
  obtains s t ls de where "demo_started = Inr s" and "fine_run (fine_start s) ls t" and "fi_copied t = None"
    and "concat (map m_diagnose_events (sent_reports ls)) = [de]" and "de_type de = ''perf''" and "de_process_name de = ''nginx''"
    and "pf_events (mp_perf (fi_pusher t)) = []"
proof (rule demo_outcome_run [OF demo_outcome_sent])
  fix s t ls
  assume d: "demo_started = Inr s" "fine_run (fine_start s) ls t" "fi_copied t = None" "pf_events (mp_perf (fi_pusher t)) = []"
    and one: "length (concat (map m_diagnose_events (sent_reports ls))) = 1"
    and names: "map de_process_name (perf_part (sent_reports ls)) = [''nginx'']"
  from one obtain de where de: "concat (map m_diagnose_events (sent_reports ls)) = [de]" by (auto simp: length_Suc_conv)
  with names have "de_type de = ''perf''" "de_process_name de = ''nginx''" by (auto simp: perf_part_def split: if_splits)
  with d de show thesis by (intro that)
qed

text \<open>An event produced in the gap is lost: nothing was sent and nothing is held, although it was produced.\<close>

lemma perf_event_in_gap_lost:
  "\<exists>s t ls. demo_started = Inr s \<and> fine_run (fine_start s) ls t \<and> inside_window ls \<noteq> [] \<and>
    perf_part (sent_reports ls) = [] \<and> pf_events (mp_perf (fi_pusher t)) = []"
proof (rule demo_outcome_run [OF demo_outcome_lost])
  fix s t ls
  assume d: "demo_started = Inr s" "fine_run (fine_start s) ls t" "pf_events (mp_perf (fi_pusher t)) = []"
    and "map de_process_name (perf_part (sent_reports ls)) = []" "map ev_process_name (inside_window ls) = [''nginx'']"
  then have "perf_part (sent_reports ls) = []" "inside_window ls \<noteq> []" by auto
  with d show ?thesis by (intro exI conjI)
qed

theorem perf_events_accounted_witness:
  "\<exists>s t ls. demo_started = Inr s \<and> fine_run (fine_start s) ls t \<and> length (outside_window ls) = 1 \<and>
    perf_part (sent_reports ls) = map add_diagnose_event (outside_window ls)"
proof (rule demo_sent_run)
  fix s t ls de
  assume d: "demo_started = Inr s" "fine_run (fine_start s) ls t" "fi_copied t = None"
    and e: "concat (map m_diagnose_events (sent_reports ls)) = [de]" "de_type de = ''perf''" and h: "pf_events (mp_perf (fi_pusher t)) = []"
  from perf_events_accounted [OF d(1) [unfolded demo_started_def] TrueI d(2,3)] h
  have sent: "perf_part (sent_reports ls) = map add_diagnose_event (outside_window ls)" by simp
  moreover have "perf_part (sent_reports ls) = [de]" using e by (simp add: perf_part_def)
  ultimately have "length (outside_window ls) = 1" by (metis length_map list.size(3,4) One_nat_def add_0)
  with d(1,2) sent show ?thesis by (intro exI conjI)
qed

theorem worker_reports_justified_witness:
  "\<exists>s t ls info. demo_started = Inr s \<and> fine_run (fine_start s) ls t \<and> info \<in> set (sent_reports ls) \<and>
    m_diagnose_events info \<noteq> [] \<and> m_ip info \<noteq> [] \<and> list_all is_double (report_values info)"
proof (rule demo_sent_run)
  fix s t ls de
  assume d: "demo_started = Inr s" "fine_run (fine_start s) ls t" and e: "concat (map m_diagnose_events (sent_reports ls)) = [de]"
  from arg_cong [OF e, of set] obtain info where info: "info \<in> set (sent_reports ls)" "de \<in> set (m_diagnose_events info)" by auto
  then have "m_diagnose_events info \<noteq> []" by auto
  with worker_reports_justified [OF d(1) [unfolded demo_started_def] d(2) info(1)] d info(1) show ?thesis by blast
qed

end
