(* ===== verification/FlowPath.thy ===== *)
theory FlowPath
  imports MonitorPusher GrpcServer "HOL-Library.Multiset"
begin

text \<open>
  TCP flows from the kernel to the manager: the events the probes of \<open>tcp_flow.bpf.c\<close> write are
  polled by \<open>ObserveCollector\<close>, put into the reports of the push loop and summed up in the
  manager's snapshots. The perf buffer between kernel and collector is a parameter: what the
  polls of a run deliver is an argument of its push rounds.
\<close>

section \<open>Flow events of a run\<close>

definition report_flows :: "MonitorInfo \<Rightarrow> FlowEvent list" where
  "report_flows info = (case m_observe_batch info of None \<Rightarrow> [] | Some b \<Rightarrow> ob_flow_events b)"

text \<open>The samples the polls of the flow buffer deliver in the course of a run.\<close>

definition delivered :: "worker_event list \<Rightarrow> (flow_event \<times> u32) list" where
  "delivered evs = concat (map (\<lambda>ev. case ev of PushRound e oe \<Rightarrow> oe_flow oe | _ \<Rightarrow> []) evs)"

definition observing :: "MonitorPusher \<Rightarrow> bool" where
  "observing pu \<longleftrightarrow> mp_running pu \<and> mp_stub pu \<and> obs_flow_pb (mp_observer pu) \<and> obs_flow_events (mp_observer pu) = []"

definition accepted :: "(flow_event \<times> u32) list \<Rightarrow> FlowEvent list" where
  "accepted ds = map (add_flow_event \<circ> bpf_to_flow \<circ> fst) (filter (\<lambda>(raw, sz). sizeof_flow_event \<le> sz) ds)"

lemma accepted_append [simp]: "accepted (xs @ ys) = accepted xs @ accepted ys"
  by (simp add: accepted_def)

lemma delivered_simps [simp]:
  "delivered [] = []" "delivered (PushRound e oe # evs) = oe_flow oe @ delivered evs"
  "delivered (PerfRound now hz # evs) = delivered evs" "delivered (StopCall # evs) = delivered evs"
  "delivered (WorldChange w # evs) = delivered evs"
  by (simp_all add: delivered_def)

lemma flows_of_push:
  assumes "observing pu" and "do_push e oe (pu, w) = Inr ((pu', w'), sent)"
  shows "observing pu' \<and> (\<exists>info. sent = Some info \<and> report_flows info = accepted (oe_flow oe))"
proof -
  obtain pu1 where pu1: "push_collect e oe (pu, w) = Inr (pu1, w')" "pu' = push_clear pu1"
    "sent = (if mp_stub pu then Some (build_info (w_time w') pu1) else None)"
    using assms(2) by (rule do_push_result)
  from pu1(1) have "mp_observer pu1 = Observe_Collect oe (mp_observer pu)" "mp_running pu1 = mp_running pu" "mp_stub pu1 = mp_stub pu"
    by (auto elim!: push_collect_result)
  with assms(1) pu1(2,3) show ?thesis
    by (simp add: observing_def push_clear_def Observe_Reset_def observe_collect_buffers build_info_def report_flows_def Let_def)
       (simp add: Observe_Collect_def fold_on_flow fold_on_process accepted_def Let_def comp_assoc)
qed

lemma flows_of_step:
  assumes "observing pu" and "\<not> is_stop ev" and "worker_step ev (pu, w) = Inr ((pu', w'), sent)"
  shows "observing pu' \<and> concat (map report_flows (case sent of None \<Rightarrow> [] | Some info \<Rightarrow> [info])) = accepted (delivered [ev])"
proof (cases ev)
  case (PushRound e oe)
  with assms have "do_push e oe (pu, w) = Inr ((pu', w'), sent)" by (simp add: observing_def)
  from flows_of_push [OF assms(1) this] PushRound show ?thesis by auto
qed (use assms in \<open>auto simp: observing_def accepted_def split: if_splits\<close>)

lemma flows_of_run:
  assumes "observing pu" and "list_all (\<lambda>ev. \<not> is_stop ev) evs" and "worker_run evs (pu, w) = Inr (s', sent)"
  shows "concat (map report_flows sent) = accepted (delivered evs)"
  using assms
proof (induction evs arbitrary: pu w sent)
  case (Cons ev evs)
  then obtain pu1 w1 s1 s2 where st: "worker_step ev (pu, w) = Inr ((pu1, w1), s1)"
    and rn: "worker_run evs (pu1, w1) = Inr (s', s2)" and sent: "sent = (case s1 of None \<Rightarrow> s2 | Some info \<Rightarrow> info # s2)"
    by auto
  from flows_of_step [OF Cons.prems(1) _ st] Cons.prems(2)
  have "observing pu1" and 1: "concat (map report_flows (case s1 of None \<Rightarrow> [] | Some info \<Rightarrow> [info])) = accepted (delivered [ev])"
    by simp_all
  from Cons.IH [OF this(1) _ rn] Cons.prems(2) have 2: "concat (map report_flows s2) = accepted (delivered evs)" by simp
  have "delivered (ev # evs) = delivered [ev] @ delivered evs" by (simp add: delivered_def)
  with 1 2 sent show ?case by (cases s1) simp_all
qed (simp add: accepted_def)

lemma run_observes:
  assumes "Pusher_Run api connects e l (MonitorPusher_new addr iv, w0) = Inr (pu, w)" and "connects addr"
    and "fst (Observe_Init l ObserveCollector_new)"
  shows "observing pu"
proof -
  have "mp_running pu \<and> mp_stub pu \<and> mp_observer pu = snd (Observe_Init l ObserveCollector_new)"
    using assms(1,2) by (auto simp: Pusher_Run_def pusher_connect_def MonitorPusher_new_def Let_def split_beta split: if_splits)
  moreover have "obs_flow_events (snd (Observe_Init l ObserveCollector_new)) = []"
    by (simp add: Observe_Init_def ObserveCollector_new_def Let_def)
  ultimately show ?thesis using assms(3) observe_init_all_or_nothing by (simp add: observing_def)
qed

section \<open>What the manager counts\<close>

lemma snapshot_flows:
  "hs_tcp_flow_count (Get (m_hostname info) (fst (SetMonitorInfo now info hosts))) = of_nat (length (report_flows info))"
  "hs_tcp_bytes_sent (Get (m_hostname info) (fst (SetMonitorInfo now info hosts))) = sum_list (map fe_bytes_sent (report_flows info))"
  "hs_tcp_bytes_recv (Get (m_hostname info) (fst (SetMonitorInfo now info hosts))) = sum_list (map fe_bytes_recv (report_flows info))"
proof -
  have v: "Get (m_hostname info) (fst (SetMonitorInfo now info hosts)) = updated_entry (m_hostname info) (build_snapshot now info) hosts"
    by (simp add: SetMonitorInfo_def Get_Update)
  show "hs_tcp_flow_count (Get (m_hostname info) (fst (SetMonitorInfo now info hosts))) = of_nat (length (report_flows info))"
    and "hs_tcp_bytes_sent (Get (m_hostname info) (fst (SetMonitorInfo now info hosts))) = sum_list (map fe_bytes_sent (report_flows info))"
    and "hs_tcp_bytes_recv (Get (m_hostname info) (fst (SetMonitorInfo now info hosts))) = sum_list (map fe_bytes_recv (report_flows info))"
    unfolding v
    by (cases "m_observe_batch info"; simp add: updated_entry_def snapshot_counts snapshot_no_batch report_flows_def)+
qed

lemma sum_of_counts: "sum_list (map (\<lambda>x. of_nat (length (f x))) xs) = (of_nat (length (concat (map f xs))) :: 'a::len word)"
  by (induction xs) simp_all

lemma sum_of_sums: "sum_list (map (\<lambda>x. sum_list (map g (f x))) xs) = sum_list (map g (concat (map f xs)))"
  for g :: "'b \<Rightarrow> 'c::comm_monoid_add"
  by (induction xs) simp_all

lemma sum_list_mset_eq: "mset xs = mset ys \<Longrightarrow> sum_list (map g xs) = sum_list (map g ys)"
  for g :: "'b \<Rightarrow> 'c::comm_monoid_add"
  by (metis mset_map sum_mset_sum_list)

text \<open>
  C7: Take a run of a connected worker whose observer started and that is not stopped, and a trace of
  the probes with at most 65536 distinct flow keys. When the perf buffer delivers every flow event
  the kernel wrote, in any order, at full size and split over the rounds in any way, the flow
  events in all reports are, as a multiset, what the probes count of the closed connections: for
  every closed IPv4 connection with a send since its key was last closed, its process, the bytes
  sent and the bytes received from the first of these sends on. The number of flows, the bytes sent and
  the bytes received that the manager's snapshots show for the reports add up to the same totals,
  modulo the width of the counters.
\<close>

theorem flow_bytes_reach_manager:
  assumes "Pusher_Run api connects e l (MonitorPusher_new addr iv, w0) = Inr s" and "connects addr"
    and "fst (Observe_Init l ObserveCollector_new)"
    and "worker_run evs s = Inr (s', sent)" and "list_all (\<lambda>ev. \<not> is_stop ev) evs"
    and "mset (map fst (delivered evs)) = mset (flow_out (run_probes es))"
    and "list_all (\<lambda>d. sizeof_flow_event \<le> snd d) (delivered evs)"
    and "int (card (set (map probe_key es))) \<le> map_entries"
  shows "mset (map (\<lambda>f. (fe_pid f, fe_bytes_sent f, fe_bytes_recv f)) (concat (map report_flows sent))) = mset (counted_flows [] es) \<and>
    sum_list (map (\<lambda>info. hs_tcp_bytes_sent (Get (m_hostname info) (fst (SetMonitorInfo now info hosts)))) sent) =
      sum_list (map (\<lambda>(pid, bytes_sent, bytes_recv). bytes_sent) (counted_flows [] es)) \<and>
    sum_list (map (\<lambda>info. hs_tcp_bytes_recv (Get (m_hostname info) (fst (SetMonitorInfo now info hosts)))) sent) =
      sum_list (map (\<lambda>(pid, bytes_sent, bytes_recv). bytes_recv) (counted_flows [] es)) \<and>
    sum_list (map (\<lambda>info. hs_tcp_flow_count (Get (m_hostname info) (fst (SetMonitorInfo now info hosts)))) sent) =
      of_nat (length (counted_flows [] es))"
proof -
  let ?f = "\<lambda>f. (fe_pid f, fe_bytes_sent f, fe_bytes_recv f)" and ?flows = "concat (map report_flows sent)"
  obtain pu w where s: "s = (pu, w)" by fastforce
  have all: "filter (\<lambda>(raw, sz). sizeof_flow_event \<le> sz) (delivered evs) = delivered evs"
    using assms(7) by (simp add: list_all_iff split_beta)
  have "?flows = accepted (delivered evs)"
    using run_observes [OF assms(1) [unfolded s] assms(2,3)] assms(5) assms(4) [unfolded s] by (rule flows_of_run)
  then have flows: "map ?f ?flows = map flow_bytes (map fst (delivered evs))"
    by (simp add: accepted_def all add_flow_event_def bpf_to_flow_def)
  have eq: "mset (map ?f ?flows) = mset (counted_flows [] es)"
    unfolding flows mset_map [of flow_bytes] assms(6) by (simp only: mset_map [symmetric] flow_out_counted [OF assms(8)])
  have "sum_list (map fe_bytes_sent ?flows) = sum_list (map (\<lambda>(pid, bytes_sent, bytes_recv). bytes_sent) (counted_flows [] es))"
    using sum_list_mset_eq [OF eq, of "\<lambda>(pid, bytes_sent, bytes_recv). bytes_sent"] by (simp add: comp_def)
  moreover have "sum_list (map fe_bytes_recv ?flows) = sum_list (map (\<lambda>(pid, bytes_sent, bytes_recv). bytes_recv) (counted_flows [] es))"
    using sum_list_mset_eq [OF eq, of "\<lambda>(pid, bytes_sent, bytes_recv). bytes_recv"] by (simp add: comp_def)
  moreover have "length ?flows = length (counted_flows [] es)" using mset_eq_length [OF eq] by simp
  ultimately show ?thesis using eq by (simp only: snapshot_flows sum_of_counts sum_of_sums simp_thms)
qed

text \<open>A worker that reports in the second round the connection of \<open>demo_trace\<close>.\<close>

definition demo_flow_events :: "worker_event list" where
  "demo_flow_events = [PushRound demo_worker_env demo_quiet,
     PushRound demo_worker_env \<lparr>oe_process = [], oe_flow = map (\<lambda>ev. (ev, sizeof_flow_event)) (flow_out (run_probes demo_trace))\<rparr>]"

lemma demo_flow_code:
  "map_sum (\<lambda>e. e) (\<lambda>(s, sent). length sent) (bind_res demo_started (worker_run demo_flow_events)) = Inr 2"
  by code_simp

lemma demo_flow_run:
  obtains s s' sent where "demo_started = Inr s" and "worker_run demo_flow_events s = Inr (s', sent)"
proof (cases demo_started)
  case (Inl x)
  then show thesis using demo_flow_code unfolding Inl by simp
next
  case (Inr s)
  show thesis
  proof (cases "worker_run demo_flow_events s")
    case (Inl x)
    then show thesis using demo_flow_code unfolding Inr by simp
  next
    case r: (Inr r)
    with Inr show thesis by (intro that [of s "fst r" "snd r"]) simp_all
  qed
qed

theorem flow_bytes_reach_manager_witness:
  "\<exists>s s' sent. demo_started = Inr s \<and> worker_run demo_flow_events s = Inr (s', sent) \<and>
    sum_list (map (\<lambda>info. hs_tcp_bytes_sent (Get (m_hostname info) (fst (SetMonitorInfo 1700 info [])))) sent) = 10 \<and>
    sum_list (map (\<lambda>info. hs_tcp_flow_count (Get (m_hostname info) (fst (SetMonitorInfo 1700 info [])))) sent) = 1"
proof (rule demo_flow_run)
  fix s s' sent
  assume d: "demo_started = Inr s" "worker_run demo_flow_events s = Inr (s', sent)"
  have no_stop: "list_all (\<lambda>ev. \<not> is_stop ev) demo_flow_events" by (simp add: demo_flow_events_def)
  have init: "fst (Observe_Init demo_bpf_calls ObserveCollector_new)" by (simp add: Observe_Init_def demo_bpf_calls_def Let_def)
  have del: "delivered demo_flow_events = map (\<lambda>ev. (ev, sizeof_flow_event)) (flow_out (run_probes demo_trace))"
    by (simp add: demo_flow_events_def demo_quiet_def)
  then have m: "mset (map fst (delivered demo_flow_events)) = mset (flow_out (run_probes demo_trace))"
    "list_all (\<lambda>x. sizeof_flow_event \<le> snd x) (delivered demo_flow_events)"
    by (simp_all add: comp_def list_all_iff)
  have "int (card {k, k, k, k}) \<le> map_entries" for k :: flow_key by (simp add: map_entries_def)
  then have room: "int (card (set (map probe_key demo_trace))) \<le> map_entries"
    by (simp add: demo_trace_def probe_key_def fill_flow_key_def demo_task_def map_entries_def)
  note f = flow_bytes_reach_manager [OF d(1) [unfolded demo_started_def] TrueI init d(2) no_stop m room, of 1700 "[]"]
  have c: "sum_list (map (\<lambda>(pid, bytes_sent, bytes_recv). bytes_sent) (counted_flows [] demo_trace)) = 10"
    "length (counted_flows [] demo_trace) = 1" by code_simp+
  from f c(1) have "sum_list (map (\<lambda>info. hs_tcp_bytes_sent (Get (m_hostname info) (fst (SetMonitorInfo 1700 info [])))) sent) = 10" by presburger
  moreover from f c(2) have "sum_list (map (\<lambda>info. hs_tcp_flow_count (Get (m_hostname info) (fst (SetMonitorInfo 1700 info [])))) sent) = 1"
    by (metis of_nat_1)
  ultimately show ?thesis using d by (intro exI conjI)
qed

end
