(* ===== verification/Spec2Isabelle.thy ===== *)
theory Spec2Isabelle
  imports Startup WorkerThreads FlowPath
begin

text \<open>
  A verification development for PerfMonitor, a monitoring system for Linux hosts. A worker on
  each host collects metrics, observes processes and TCP flows with eBPF and runs diagnose
  tools; every interval it pushes one report over gRPC to the manager, which keeps one snapshot per
  host, scores its health, drops hosts that fall silent and serves everything over HTTP.

  \<^bold>\<open>Theories and sources.\<close> Paths are under \<open>src/\<close>.

    \<^item> \<open>Prelude\<close>: word and exception types, strings, association lists, the bounded log.
      \<open>Double\<close>: IEEE binary64 as rationals with infinities and NaN, rounding to nearest even, and
      the lemmas on rounding the components use. \<open>Iostream\<close>: \<open>std::istringstream\<close> extraction,
      \<open>getline\<close>, \<open>stoi\<close>, \<open>stoull\<close> and the output of numbers.
    \<^item> \<open>Messages\<close>: \<open>proto/*.proto\<close>. \<open>HostManager\<close>: \<open>manager/src/host_manager.cpp\<close>; the hash map is
      an association list. \<open>GrpcServer\<close>: \<open>manager/src/rpc/grpc_server.cpp\<close> and the manager as a
      transition system of reports and expiry passes. \<open>MetricsExporter\<close>:
      \<open>manager/src/rpc/metrics_exporter.cpp\<close>, from the bytes of a request to the bytes of the answer;
      \<open>HttpServer\<close>: its class and \<open>serve_loop\<close> as the sequence of its system calls.
    \<^item> \<open>MonitorInterface\<close>: \<open>worker/include/monitor/monitor_inter.h\<close> as the locale
      \<open>monitor_interface\<close>, \<open>read_file.cpp\<close>, and the locale \<open>counter_sampler\<close> of collectors that
      report counter differences. \<open>CpuMonitors\<close>, \<open>MemMonitor\<close>, \<open>DiskMonitor\<close>, \<open>NetMonitor\<close> and
      \<open>MetricCollector\<close> (with the host information): \<open>worker/src/monitor/\<close>, each interpreting the
      locales.
    \<^item> \<open>CmdRunner\<close>, \<open>ProcScan\<close>, \<open>FileRotation\<close>, \<open>BpfDiagnoser\<close>, \<open>PerfDiagnoser\<close>:
      \<open>worker/src/diagnose/\<close>. Child processes are a record of the forks to come, the children and
      the signals sent; \<open>CmdRunner\<close> has a destructor and no move operations, so copies and
      destructions are written out. The thread of the perf diagnoser is the function
      \<open>worker_iter\<close>, one iteration, and the reachable states of the object.
    \<^item> \<open>TcpFlow\<close>: the probes of \<open>worker/src/ebpf/tcp_flow.bpf.c\<close> and \<open>process_trace.bpf.c\<close> over their
      bounded maps. \<open>ObserveCollector\<close>: \<open>worker/src/observe/observe_collector.cpp\<close>.
    \<^item> \<open>ConfigManager\<close>: \<open>worker/src/config/config_manager.cpp\<close>. \<open>MonitorPusher\<close>:
      \<open>worker/src/rpc/monitor_pusher.cpp\<close>, \<open>Run\<close>, \<open>do_push\<close>, \<open>Stop\<close>, destruction, and the worker as a
      transition system of push rounds, perf iterations, \<open>Stop\<close> and changes of the world.
      \<open>WorkerThreads\<close>: the push loop and the perf thread as a step relation in which copying and
      clearing the events are separate steps.
    \<^item> \<open>Startup\<close>: the two \<open>main.cpp\<close>, from the arguments to the exit code. \<open>FlowPath\<close>: TCP flows from
      the kernel through the worker to the manager. This theory: a push and the manager's
      snapshot, and the log of a whole run.

  \<^bold>\<open>How state and effects are modelled.\<close> A class is a record, a method a function on it; exceptions are
  the left values of \<open>'a res\<close>. Counters keep their width as words; times in seconds, the perf timer and
  configured numbers are \<open>int\<close>, since they stay far from the limits of their types. \<open>double\<close> arithmetic is
  rounded step by step as the code writes it. What the operating system provides (files, directory order,
  clock, process table, resolver), the iteration orders of hash maps, the outcome of libbpf calls,
  the JSON library, the shell pipeline, the results of socket calls and whether a channel connects
  are arguments. Nothing uses fuel: loops are structural, or recursive with a measure. The loops
  that run until a flag is cleared (\<open>serve_rounds\<close>, \<open>manager_loop\<close>, \<open>worker_wait\<close>) are partial functions
  whose value is \<open>None\<close> when they do not end, over what each test of the flag reads; the threads of
  the worker are iterated steps.

  \<^bold>\<open>What is shown.\<close>

    \<^item> The manager: the store's invariant in every reachable state, the diagnose log as the last 20 of
      the history, round trip of a report, score in range and antitone, exact expiry.
    \<^item> The HTTP side: request parsing, the listing of events, for exactly which requests the flame
      graph endpoint runs a command and which, and exactly when the server loop ends, with every
      descriptor closed.
    \<^item> The two programs: both return 0 once a signal has cleared their flag, under stated conditions,
      with the store, the reports and the signalled tools they end with.
    \<^item> The collectors: on text in the format of the kernel, aligned columns included, each reports
      exactly the (rounded) values, for every hash order and with wrapping totals; when \<open>Collect\<close> raises; what a counter that goes
      back does; and one invariant for any sequence of calls.
    \<^item> The diagnosers: process lookup, rotation keeping the newest files, restart of every tool,
      events reported at most once and in order, the debounce of the perf trigger, and events that
      name configured targets and, for a positive duration, reach the threshold.
    \<^item> The eBPF programs: under any interleaving of connections, flow events carry the bytes sent and
      the bytes received from the first send on.
    \<^item> The worker: for every interleaving of its two threads, every report is well formed and justified
      by the configuration, and which perf events are reported; one report per round while connected.
    \<^item> Worker and manager together: what a push does to the manager's snapshot, the manager's log
      over a whole interleaved run, and what the probes count of closed connections from the
      kernel to the manager.
    \<^item> Deviations from what code or documents mean are stated as theorems too: tools signalled
      right after their launch, overlapping recordings, connect latency, reloaded targets, a
      duration of 0 that switches the threshold off.

  \<^bold>\<open>Atomicity.\<close> A call of the store is one step because of its mutex. In \<open>MonitorPusher\<close> a round of the
  push loop and an iteration of the perf thread are one step each. The code does not enforce this for
  the vector of perf events, so whatever depends on these events is shown in \<open>WorkerThreads\<close>, where an
  iteration may fall between copying and clearing; collecting and copying are one step there. Only
  these two threads share state of the worker. A probe of the eBPF programs is one step.

  \<^bold>\<open>Not modelled.\<close> The scheduler, signal delivery, gRPC and protobuf encoding, the shell commands, the
  kernel behind the eBPF helpers, and the build without \<open>ENABLE_EBPF\<close>; they are libraries or input
  and output. Accesses without synchronisation are taken to be atomic, \<open>unlink\<close> of a file that was just
  listed succeeds, and a shell pipeline ends. The load generator
  under \<open>benchmarks/\<close> is not part of the system.

  \<^bold>\<open>Possible extensions.\<close> Conservation of the events of the off-CPU and profile tools over a run; the
  process events from \<open>process_trace\<close> to the manager's counters; the pages of the HTTP
  server tied to the store at the time of the request.
\<close>

section \<open>From a push to the manager's snapshot\<close>

definition event_record :: "CppDiagnoseEvent \<Rightarrow> DiagnoseRecord" where
  "event_record ev = diagnose_record (add_diagnose_event ev)"

lemma push_metrics:
  assumes "do_push e oe (pu, w) = Inr ((pu', w'), Some info)"
  shows "m_hostname info = hostname (mc_host (mp_metrics pu'))"
    "get_cpu_load info = set_cpu_load (mc_cpu_load (mp_metrics pu'))"
    "get_cpu_stat info = set_cpu_stat (mc_cpu_stat (mp_metrics pu'))"
    "get_mem info = set_mem (mc_mem (mp_metrics pu'))"
    "Metric_Collect e (mp_metrics pu) = Inr (mp_metrics pu')"
  using assms
  by (auto simp: build_info_def Let_def push_clear_def get_cpu_load_def get_cpu_stat_def get_mem_def
      elim!: do_push_result push_collect_result split: if_splits)

lemma push_events:
  assumes "do_push e oe (pu, w) = Inr ((pu', w'), Some info)"
  shows "m_diagnose_events info = map add_diagnose_event (bd_events (fst (Bpf_Collect (mp_bpf pu) w)) @ pf_events (mp_perf pu))"
    and "bd_events (mp_bpf pu') = []" and "pf_events (mp_perf pu') = []" and "obs_flow_events (mp_observer pu') = []"
proof -
  obtain pu1 where pu1: "push_collect e oe (pu, w) = Inr (pu1, w')" "pu' = push_clear pu1" "info = build_info (w_time w') pu1"
    using assms by (rule do_push_result) (auto split: if_splits)
  from pu1(1) have ev: "bd_events (mp_bpf pu1) = bd_events (fst (Bpf_Collect (mp_bpf pu) w))" "pf_events (mp_perf pu1) = pf_events (mp_perf pu)"
    by (auto elim!: push_collect_result simp: Perf_Collect_def)
  then show "m_diagnose_events info = map add_diagnose_event (bd_events (fst (Bpf_Collect (mp_bpf pu) w)) @ pf_events (mp_perf pu))"
    by (simp add: pu1(3) build_info_def Let_def)
  show "bd_events (mp_bpf pu') = []" "pf_events (mp_perf pu') = []" "obs_flow_events (mp_observer pu') = []"
    by (simp_all add: pu1(2) push_clear_def Bpf_Reset_def Perf_Reset_def Observe_Reset_def)
qed

lemma push_observed:
  assumes "do_push e oe (pu, w) = Inr ((pu', w'), Some info)"
  shows "m_observe_batch info = Some \<lparr>
    ob_process_events = map add_process_event (obs_process_events (Observe_Collect oe (mp_observer pu))),
    ob_flow_events = map add_flow_event (obs_flow_events (Observe_Collect oe (mp_observer pu)))\<rparr>"
  using assms by (auto simp: build_info_def Let_def elim!: do_push_result push_collect_result split: if_splits)

text \<open>
  C4: A push that reaches the manager, with no perf iteration in its course, replaces the snapshot of
  the worker's host. Load, memory and CPU use are those \<open>Metric_Collect\<close> measures in this push; flow
  count and bytes are those of the flow events \<open>Observe_Collect\<close> leaves. The log of diagnose events
  grows, cut to the last 20, by the events the diagnoser of the off-CPU and profile tools held,
  then those its \<open>Collect\<close> adds in this push, which are pending events of its tools in the order of the
  runners, each with data in its file, and then those of the perf diagnoser. The worker holds none
  of these events afterwards.
\<close>

theorem push_reaches_manager:
  assumes "do_push e oe (pu, w) = Inr ((pu', w'), Some info)"
  shows "\<exists>m new. Metric_Collect e (mp_metrics pu) = Inr m \<and>
    bd_events (fst (Bpf_Collect (mp_bpf pu) w)) = bd_events (mp_bpf pu) @ new \<and>
    subseq new (map re_pending (bd_runners (mp_bpf pu))) \<and> list_all (with_data (w_fs w)) new \<and>
    (let h = hostname (mc_host m); v = Get h (fst (SetMonitorInfo now info hosts));
         flows = obs_flow_events (Observe_Collect oe (mp_observer pu)) in
     hs_last_update v = now \<and> hs_load_1m v = load_1m (mc_cpu_load m) \<and>
     hs_cpu_used_pct v = dsub (Fin 100) (p_idle (pct (mc_cpu_stat m))) \<and> hs_mem_used_pct v = used_pct (mc_mem m) \<and>
     hs_tcp_flow_count v = of_nat (length flows) \<and> hs_tcp_bytes_sent v = sum_list (map cfe_bytes_sent flows) \<and>
     hs_tcp_bytes_recv v = sum_list (map cfe_bytes_recv flows) \<and>
     hs_diagnose_events v = last_n 20 (hs_diagnose_events (Get h hosts) @
       map event_record (bd_events (mp_bpf pu) @ new @ pf_events (mp_perf pu)))) \<and>
    bd_events (mp_bpf pu') = [] \<and> pf_events (mp_perf pu') = [] \<and> obs_flow_events (mp_observer pu') = []"
proof -
  note m = push_metrics [OF assms] and ev = push_events [OF assms]
  have rec: "map diagnose_record (map add_diagnose_event xs) = map event_record xs" for xs
    by (simp add: event_record_def)
  from bpf_collect_events [of "mp_bpf pu" w] obtain new where
    new: "bd_events (fst (Bpf_Collect (mp_bpf pu) w)) = bd_events (mp_bpf pu) @ new"
    "subseq new (map re_pending (bd_runners (mp_bpf pu)))" "list_all (with_data (w_fs w)) new" by blast
  let ?v = "Get (hostname (mc_host (mp_metrics pu'))) (fst (SetMonitorInfo now info hosts))"
  let ?flows = "obs_flow_events (Observe_Collect oe (mp_observer pu))"
  have v: "?v = updated_entry (m_hostname info) (build_snapshot now info) hosts"
    by (simp add: SetMonitorInfo_def Get_Update m(1))
  have "m_diagnose_events info = map add_diagnose_event (bd_events (mp_bpf pu) @ new @ pf_events (mp_perf pu))"
    using ev(1) new(1) by simp
  then have "hs_diagnose_events ?v = last_n 20 (hs_diagnose_events (Get (hostname (mc_host (mp_metrics pu'))) hosts) @
      map event_record (bd_events (mp_bpf pu) @ new @ pf_events (mp_perf pu)))"
    unfolding v by (simp only: updated_entry_def snapshot_events rec m(1)) simp
  moreover have "hs_last_update ?v = now" "hs_load_1m ?v = load_1m (mc_cpu_load (mp_metrics pu'))"
    "hs_cpu_used_pct ?v = dsub (Fin 100) (p_idle (pct (mc_cpu_stat (mp_metrics pu'))))"
    "hs_mem_used_pct ?v = used_pct (mc_mem (mp_metrics pu'))"
    unfolding v by (simp_all add: updated_entry_def m(2-4) set_cpu_load_def set_cpu_stat_def set_mem_def)
  moreover have "hs_tcp_flow_count ?v = of_nat (length ?flows)" "hs_tcp_bytes_sent ?v = sum_list (map cfe_bytes_sent ?flows)"
    "hs_tcp_bytes_recv ?v = sum_list (map cfe_bytes_recv ?flows)"
    unfolding v by (simp_all add: updated_entry_def snapshot_counts [OF push_observed [OF assms]] comp_def add_flow_event_def)
  ultimately show ?thesis unfolding Let_def using m(5) ev(2-4) new by blast
qed

text \<open>A connected worker that has sampled 50 ticks of user time, pushing while \<open>/proc/stat\<close> cannot be read.\<close>

definition demo_pusher :: MonitorPusher where
  "demo_pusher = (MonitorPusher_new ''m:50051'' 10)\<lparr>mp_stub := True,
     mp_metrics := (Metric_Init demo_worker_env MetricCollector_new)
       \<lparr>mc_cpu_stat := CpuStatMonitor_new\<lparr>prev_stat := CpuStatRaw_zero\<lparr>user := 50\<rparr>\<rparr>\<rparr>\<rparr>"

lemma demo_push_code:
  "map_sum (\<lambda>x. x) (\<lambda>(s, sent). map_option m_hostname sent) (do_push demo_worker_env demo_quiet (demo_pusher, demo_world [])) =
     Inr (Some ''w1'')"
  by code_simp

lemma demo_push_result:
  obtains pu w info where "do_push demo_worker_env demo_quiet (demo_pusher, demo_world []) = Inr ((pu, w), Some info)"
    and "m_hostname info = ''w1''"
proof (cases "do_push demo_worker_env demo_quiet (demo_pusher, demo_world [])")
  case (Inl x)
  then show thesis using demo_push_code unfolding Inl by simp
next
  case (Inr r)
  have "map_option m_hostname (snd r) = Some ''w1''" using demo_push_code unfolding Inr by (simp add: split_beta)
  then obtain info where "snd r = Some info" "m_hostname info = ''w1''" by auto
  with Inr show thesis by (intro that [of "fst (fst r)" "snd (fst r)" info]) (auto simp: prod_eq_iff)
qed

theorem push_reaches_manager_witness:
  "\<exists>pu w info m. do_push demo_worker_env demo_quiet (demo_pusher, demo_world []) = Inr ((pu, w), Some info) \<and>
    Metric_Collect demo_worker_env (mp_metrics demo_pusher) = Inr m \<and>
    hs_last_update (Get ''w1'' (fst (SetMonitorInfo 1700 info []))) = 1700 \<and>
    hs_mem_used_pct (Get ''w1'' (fst (SetMonitorInfo 1700 info []))) = used_pct (mc_mem m)"
proof (rule demo_push_result)
  fix pu w info
  assume p: "do_push demo_worker_env demo_quiet (demo_pusher, demo_world []) = Inr ((pu, w), Some info)" "m_hostname info = ''w1''"
  have h: "hostname (mc_host (mp_metrics pu)) = ''w1''" using push_metrics(1) [OF p(1)] p(2) by simp
  from push_reaches_manager [OF p(1), of 1700 "[]"] obtain m where m: "Metric_Collect demo_worker_env (mp_metrics demo_pusher) = Inr m"
    "hs_last_update (Get (hostname (mc_host m)) (fst (SetMonitorInfo 1700 info []))) = 1700"
    "hs_mem_used_pct (Get (hostname (mc_host m)) (fst (SetMonitorInfo 1700 info []))) = used_pct (mc_mem m)"
    unfolding Let_def by (elim exE conjE) (rule that)
  have "m = mp_metrics pu" using m(1) push_metrics(5) [OF p(1)] by simp
  then have "hostname (mc_host m) = ''w1''" using h by simp
  from m(2,3) [unfolded this] m(1) p(1) show ?thesis by (intro exI conjI)
qed

text \<open>
  When \<open>/proc/stat\<close> cannot be read, the collector reports zero idle time and not a missing value,
  and the manager shows the host at 100 percent CPU use.
\<close>

lemma unreadable_stat_reports_full_cpu:
  assumes "do_push e oe (pu, w) = Inr ((pu', w'), Some info)" and "env_fs e ''/proc/stat'' = None"
    and "list_all (\<lambda>n. uint n < 2 ^ 63) (cpu_fields (prev_stat (mc_cpu_stat (mp_metrics pu))))"
    and "cpu_total (prev_stat (mc_cpu_stat (mp_metrics pu))) \<noteq> 0"
  shows "hs_cpu_used_pct (Get (m_hostname info) (fst (SetMonitorInfo now info hosts))) = Fin 100"
proof -
  have "mc_cpu_stat (mp_metrics pu') = CpuStat_Collect (env_fs e) (mc_cpu_stat (mp_metrics pu))"
    by (rule metric_collect_parts(3) [OF push_metrics(5) [OF assms(1)]])
  then have "cs_idle_pct (get_cpu_stat info) = Fin 0"
    using collect_unreadable [of "env_fs e" "mc_cpu_stat (mp_metrics pu)"] assms(2-4) by (simp add: push_metrics(3) [OF assms(1)] set_cpu_stat_def)
  then show ?thesis by (simp add: SetMonitorInfo_def Get_Update updated_entry_def dsub_def)
qed

section \<open>The log over a whole run\<close>

text \<open>The reports of a host among the events of the manager, and that no expiry pass after the first finds it silent.\<close>

fun requests_of :: "string \<Rightarrow> mgr_event list \<Rightarrow> MonitorInfo list" where
  "requests_of h [] = []"
| "requests_of h (Report now r # evs) = (if m_hostname r = h then r # requests_of h evs else requests_of h evs)"
| "requests_of h (Tick now # evs) = requests_of h evs"

fun fresh_from_first :: "string \<Rightarrow> mgr_event list \<Rightarrow> bool" where
  "fresh_from_first h [] = True"
| "fresh_from_first h (Report now r # evs) = (if m_hostname r = h then always_fresh h now evs else fresh_from_first h evs)"
| "fresh_from_first h (Tick now # evs) = fresh_from_first h evs"

lemma reported_requests: "reported h evs = map diagnose_record (concat (map m_diagnose_events (requests_of h evs)))"
  by (induction h evs rule: requests_of.induct) simp_all

lemma log_from_first_report:
  assumes "hosts_ok hosts" and "hs_diagnose_events (Get h hosts) = []" and "fresh_from_first h evs"
  shows "hs_diagnose_events (Get h (mgr_run evs hosts)) = last_n 20 (reported h evs)"
  using assms
proof (induction h evs arbitrary: hosts rule: fresh_from_first.induct)
  case (1 h)
  then show ?case by (simp add: mgr_run_def last_n_def)
next
  case (2 h now r evs)
  let ?hosts = "mgr_step (Report now r) hosts"
  have run: "mgr_run (Report now r # evs) hosts = mgr_run evs ?hosts" by (simp add: mgr_run_def)
  have ok: "hosts_ok ?hosts" using 2(2) by (rule hosts_ok_step)
  show ?case
  proof (cases "m_hostname r = h")
    case True
    then have e: "Get h ?hosts = updated_entry h (build_snapshot now r) hosts" by (simp add: Get_after_report del: mgr_step.simps)
    then have "always_fresh h (hs_last_update (Get h ?hosts)) evs" using 2(4) True by (simp add: updated_entry_def)
    from log_is_recent_history [OF ok this] show ?thesis
      unfolding run using e 2(3) True by (simp add: updated_entry_def last_n_append_absorb)
  next
    case False
    then have "Get h ?hosts = Get h hosts" by (simp add: Get_after_report del: mgr_step.simps)
    with 2(1) [OF False ok] 2(3,4) False show ?thesis unfolding run by simp
  qed
next
  case (3 h now evs)
  let ?hosts = "mgr_step (Tick now) hosts"
  have "hs_diagnose_events (Get h ?hosts) = []" using 3(2,3) by (simp add: Get_RemoveExpired)
  moreover have "hosts_ok ?hosts" using 3(2) by (rule hosts_ok_step)
  moreover have "mgr_run (Tick now # evs) hosts = mgr_run evs ?hosts" by (simp add: mgr_run_def)
  ultimately show ?case using 3(1,4) by simp
qed

text \<open>
  C3: Take a worker that connected and is not stopped, with the push loop and the perf thread
  interleaved freely, at a point where no report is half sent; let each of its reports be delivered,
  in order and with any other traffic and expiry passes in between, such that no pass after its
  first report finds it silent for more than 60 seconds. Then all reports carry one host name, and
  the manager's log for it is the last 20 events of all reports. The perf records in the log
  are a contiguous window of the events the perf thread produced outside the gaps between copying and
  clearing, followed only by the events the worker still holds; those produced in a gap are lost.
\<close>

theorem manager_log_of_worker:
  assumes "Pusher_Run api connects e l (MonitorPusher_new addr iv, w0) = Inr s" and "connects addr"
    and "fine_run (fine_start s) ls t" and "fi_copied t = None"
    and "h = hostname (mc_host (mp_metrics (fst s)))" and "requests_of h mevs = sent_reports ls" and "fresh_from_first h mevs"
  shows "list_all (\<lambda>info. m_hostname info = h) (sent_reports ls) \<and>
    hs_diagnose_events (Get h (mgr_run mevs [])) =
      last_n 20 (map diagnose_record (concat (map m_diagnose_events (sent_reports ls)))) \<and>
    (\<exists>old. old @ filter (\<lambda>r. dr_type r = ''perf'') (hs_diagnose_events (Get h (mgr_run mevs []))) @
       map event_record (pf_events (mp_perf (fi_pusher t))) = map event_record (outside_window ls))"
proof -
  let ?log = "hs_diagnose_events (Get h (mgr_run mevs []))" and ?P = "\<lambda>r. dr_type r = ''perf''"
  let ?all = "map diagnose_record (concat (map m_diagnose_events (sent_reports ls)))"
  let ?held = "pf_events (mp_perf (fi_pusher t))"
  have log: "?log = last_n 20 ?all"
    using log_from_first_report [of "[]" h mevs] assms(6,7) by (simp add: reported_requests Get_def)
  then obtain pre where pre: "?all = pre @ ?log" using suffix_last_n [of 20 ?all] by (auto simp: suffix_def)
  have once: "perf_part (sent_reports ls) @ map add_diagnose_event ?held = map add_diagnose_event (outside_window ls)"
    using fine_inv_run [OF assms(3) fine_start_inv [OF assms(1,2)]] assms(4) by (simp add: fine_inv_def)
  have "map diagnose_record (perf_part (sent_reports ls)) = filter ?P ?all"
    by (simp add: perf_part_def filter_map comp_def diagnose_record_def)
  also have "\<dots> = filter ?P pre @ filter ?P ?log" unfolding pre by simp
  finally have "filter ?P pre @ filter ?P ?log @ map event_record ?held =
      map diagnose_record (perf_part (sent_reports ls) @ map add_diagnose_event ?held)"
    by (simp add: event_record_def)
  also have "\<dots> = map event_record (outside_window ls)" unfolding once by (simp add: event_record_def)
  finally have "\<exists>old. old @ filter ?P ?log @ map event_record ?held = map event_record (outside_window ls)" by blast
  moreover have "list_all (\<lambda>info. m_hostname info = h) (sent_reports ls)"
    using fine_reports_good [OF assms(1,3)] unfolding assms(5) by (auto simp: list_all_iff good_report_def)
  ultimately show ?thesis using log by blast
qed

lemma requests_of_reports:
  "list_all (\<lambda>r. m_hostname r = h) rs \<Longrightarrow> requests_of h (map (Report now) rs @ [Tick later]) = rs"
  by (induction rs) simp_all

lemma fresh_reports:
  assumes "list_all (\<lambda>r. m_hostname r = h) rs" and "later - now \<le> 60"
  shows "fresh_from_first h (map (Report now) rs @ [Tick later])"
proof -
  have "always_fresh h now (map (Report now) rs @ [Tick later])" using assms by (induction rs) simp_all
  with assms show ?thesis by (cases rs) simp_all
qed

theorem manager_log_of_worker_witness:
  "\<exists>s t ls h. demo_started = Inr s \<and> fine_run (fine_start s) ls t \<and>
    map dr_process_name (hs_diagnose_events (Get h (mgr_run (map (Report 1700) (sent_reports ls) @ [Tick 1720]) []))) = [''nginx'']"
proof (rule demo_sent_run)
  fix s t ls de
  assume d: "demo_started = Inr s" "fine_run (fine_start s) ls t" "fi_copied t = None"
    and e: "concat (map m_diagnose_events (sent_reports ls)) = [de]" "de_process_name de = ''nginx''"
  define h where "h = hostname (mc_host (mp_metrics (fst s)))"
  have names: "list_all (\<lambda>info. m_hostname info = h) (sent_reports ls)"
    using fine_reports_good [OF d(1) [unfolded demo_started_def] d(2)] unfolding h_def by (auto simp: list_all_iff good_report_def)
  note m = manager_log_of_worker [OF d(1) [unfolded demo_started_def] TrueI d(2,3) h_def requests_of_reports [OF names]
      fresh_reports [OF names], of 1720 1700]
  have "hs_diagnose_events (Get h (mgr_run (map (Report 1700) (sent_reports ls) @ [Tick 1720]) [])) = [diagnose_record de]"
    using conjunct1 [OF conjunct2 [OF m]] by (simp add: e(1) last_n_def)
  then have n: "map dr_process_name (hs_diagnose_events (Get h (mgr_run (map (Report 1700) (sent_reports ls) @ [Tick 1720]) []))) = [''nginx'']"
    by (simp add: diagnose_record_def e(2))
  show ?thesis by (rule exI [of _ s], rule exI [of _ t], rule exI [of _ ls], rule exI [of _ h]) (intro conjI d n)
qed

end
